theory Spec2Isabelle
  imports Complex_Main
begin

section \<open>The data model\<close>

text \<open>
  The views of \<^verbatim>\<open>posts/views.py\<close> work on five tables. Rows refer to each other by
  primary key, as foreign keys do.
\<close>

type_synonym pk = nat

text \<open>Modelled from the spec: the entities of \<^verbatim>\<open>posts/models.py\<close> (not among the sources),
  with the attributes of the spec's data model table that the views read or write.\<close>

record user =
  user_id :: pk
  username :: string

record group =
  group_id :: pk
  slug :: string
  title :: string

text \<open>An instance that is not saved yet has no primary key (\<^verbatim>\<open>None\<close>), and a new
  instance has no author and no post until the view sets them. An empty image field is
  \<open>None\<close>; a stored image is the name of its file.\<close>

record post =
  post_id :: "pk option"
  post_text :: string
  post_author :: "pk option"
  post_group :: "pk option"
  post_image :: "string option"

record comment =
  comment_id :: "pk option"
  comment_post :: "pk option"
  comment_author :: "pk option"
  comment_text :: string

record follow =
  follow_id :: "pk option"
  follow_user :: pk
  follow_author :: pk

text \<open>Each table is the list of its rows in the order of their creation.\<close>

record db =
  users :: "user list"
  groups :: "group list"
  posts :: "post list"
  comments :: "comment list"
  follows :: "follow list"

text \<open>A new row gets a primary key larger than every key of its table.\<close>

definition fresh_pk :: "pk option list \<Rightarrow> pk" where
  "fresh_pk ks = Suc (fold max (List.map_filter id ks) 0)"

section \<open>Requests and responses\<close>

datatype http_method = GET | HEAD | POST

text \<open>Modelled from the spec: an uploaded file either decodes as a supported image format
  or does not (the decoding is done by the image field of \<^verbatim>\<open>posts/models.py\<close>, which is not
  among the sources). Either way it has a name.\<close>

datatype upload = Image_file string | Non_image_file string

text \<open>
  A \<^verbatim>\<open>QueryDict\<close> is a list of key-value pairs; \<^verbatim>\<open>get\<close> gives the last value of
  a key. \<^verbatim>\<open>request.user\<close> is \<open>None\<close> for the anonymous user.
\<close>

type_synonym 'v querydict = "(string \<times> 'v) list"

definition qd_get :: "'v querydict \<Rightarrow> string \<Rightarrow> 'v option" where
  "qd_get d k = map_of (rev d) k"

text \<open>\<^verbatim>\<open>d or None\<close>: an empty dictionary is falsy.\<close>

definition or_None :: "'v querydict \<Rightarrow> 'v querydict option" where
  "or_None d = (if d = [] then None else Some d)"

record request =
  req_method :: http_method
  req_full_path :: string
  req_user :: "user option"
  req_GET :: "string querydict"
  req_POST :: "string querydict"
  req_FILES :: "upload querydict"

datatype page_error = PageNotAnInteger | EmptyPage

text \<open>What a view can raise: \<^verbatim>\<open>Http404\<close> and \<^verbatim>\<open>MultipleObjectsReturned\<close> from
  \<^verbatim>\<open>get_object_or_404\<close>, an error of the paginator, and the error of using the anonymous
  user as a row of the user table.\<close>

datatype error = Http404 | MultipleObjectsReturned | Page_error page_error | Anonymous_user_error

section \<open>Python's int() on a string\<close>

text \<open>
  The paginator and the group field read an integer from a string with the built-in
  \<^verbatim>\<open>int\<close>. What it accepts depends on the version of Python and of its Unicode tables,
  so the views take it as a parameter \<open>int_of\<close>: \<open>int_of s\<close> is \<open>None\<close> where
  \<^verbatim>\<open>int(s)\<close> raises \<^verbatim>\<open>ValueError\<close>, and the integer otherwise. Every theorem about the views
  holds for every \<open>int_of\<close>.
\<close>

type_synonym int_fn = "string \<Rightarrow> int option"

text \<open>
  The examples need one such function. \<open>ascii_int\<close> reads a decimal literal as
  \<^verbatim>\<open>int\<close> does on an ASCII string: white space (space, tab, line feed, vertical tab,
  form feed, carriage return) around it, an optional sign, then digits, with single
  underscores allowed between digits. It stands for \<^verbatim>\<open>int\<close> on ASCII strings of at most
  4300 characters, where the versions of Python agree, and the examples use it on such
  strings only; it reads no other string as an integer.
\<close>

definition is_py_space :: "char \<Rightarrow> bool" where
  "is_py_space c = (c \<in> set [CHR '' '', CHR 0x09, CHR 0x0A, CHR 0x0B, CHR 0x0C, CHR 0x0D])"

definition py_strip :: "string \<Rightarrow> string" where
  "py_strip s = rev (dropWhile is_py_space (rev (dropWhile is_py_space s)))"

definition is_digit :: "char \<Rightarrow> bool" where
  "is_digit c = (48 \<le> (of_char c :: nat) \<and> (of_char c :: nat) \<le> 57)"

definition digit_val :: "char \<Rightarrow> int" where
  "digit_val c = int (of_char c) - 48"

text \<open>Decimal digits, with single underscores between digits; a digit is expected first.\<close>

fun py_digits :: "int \<Rightarrow> string \<Rightarrow> int option" where
  "py_digits acc [] = None"
| "py_digits acc (c # cs) =
     (if \<not> is_digit c then None
      else (case cs of
              [] \<Rightarrow> Some (10 * acc + digit_val c)
            | d # ds \<Rightarrow> if d = CHR ''_'' then py_digits (10 * acc + digit_val c) ds
                       else py_digits (10 * acc + digit_val c) cs))"

definition ascii_int :: int_fn where
  "ascii_int s =
     (case py_strip s of
        [] \<Rightarrow> None
      | c # cs \<Rightarrow> if c = CHR ''-'' then map_option uminus (py_digits 0 cs)
                 else if c = CHR ''+'' then py_digits 0 cs
                 else py_digits 0 (c # cs))"

text \<open>The decimal digits of a natural number, and the strings \<open>ascii_int\<close> reads as
  they stand: digits alone.\<close>

fun decimal :: "nat \<Rightarrow> string" where
  "decimal n =
     (if n < 10 then [char_of (48 + n)]
      else decimal (n div 10) @ [char_of (48 + n mod 10)])"

declare decimal.simps [simp del]

definition digits_only :: "string \<Rightarrow> bool" where
  "digits_only s = (s \<noteq> [] \<and> list_all (\<lambda>c. is_digit c \<and> \<not> is_py_space c \<and>
      c \<noteq> CHR ''-'' \<and> c \<noteq> CHR ''+'' \<and> c \<noteq> CHR ''_'') s)"

section \<open>The paginator\<close>

text \<open>
  \<^verbatim>\<open>django.core.paginator.Paginator\<close>, as the views use it: \<^verbatim>\<open>Paginator(object_list, 10)\<close>
  has no orphans and allows an empty first page.
\<close>

record 'a paginator =
  object_list :: "'a list"
  per_page :: nat
  orphans :: nat
  allow_empty_first_page :: bool

definition Paginator :: "'a list \<Rightarrow> nat \<Rightarrow> 'a paginator" where
  "Paginator xs n = \<lparr>object_list = xs, per_page = n, orphans = 0, allow_empty_first_page = True\<rparr>"

record 'a page =
  page_object_list :: "'a list"
  page_number :: int
  page_paginator :: "'a paginator"

definition pcount :: "'a paginator \<Rightarrow> nat" where
  "pcount p = length (object_list p)"

text \<open>\<^verbatim>\<open>ceil(hits / per_page)\<close> with \<^verbatim>\<open>hits = max(1, count - orphans)\<close>.\<close>

definition num_pages :: "'a paginator \<Rightarrow> int" where
  "num_pages p =
     (if pcount p = 0 \<and> \<not> allow_empty_first_page p then 0
      else int ((max 1 (pcount p - orphans p) + per_page p - 1) div per_page p))"

text \<open>\<^verbatim>\<open>int(number)\<close> on what \<^verbatim>\<open>request.GET.get("page")\<close> gave: \<open>None\<close> when the
  parameter is absent (\<^verbatim>\<open>int(None)\<close> raises \<^verbatim>\<open>TypeError\<close>) and when \<^verbatim>\<open>int\<close> raises
  \<^verbatim>\<open>ValueError\<close> on the string.\<close>

definition to_int :: "int_fn \<Rightarrow> string option \<Rightarrow> int option" where
  "to_int int_of q = (case q of None \<Rightarrow> None | Some s \<Rightarrow> int_of s)"

definition check_number :: "'a paginator \<Rightarrow> int \<Rightarrow> page_error + int" where
  "check_number p n =
     (if n < 1 then Inl EmptyPage
      else if n > num_pages p then
        (if n = 1 \<and> allow_empty_first_page p then Inr n else Inl EmptyPage)
      else Inr n)"

definition validate_number :: "int_fn \<Rightarrow> 'a paginator \<Rightarrow> string option \<Rightarrow> page_error + int" where
  "validate_number int_of p q =
     (case to_int int_of q of None \<Rightarrow> Inl PageNotAnInteger | Some n \<Rightarrow> check_number p n)"

text \<open>\<^verbatim>\<open>object_list[bottom:top]\<close>\<close>

definition slice :: "'a list \<Rightarrow> nat \<Rightarrow> nat \<Rightarrow> 'a list" where
  "slice xs lo hi = take (hi - lo) (drop lo xs)"

definition page :: "'a paginator \<Rightarrow> int \<Rightarrow> page_error + 'a page" where
  "page p number =
     (case check_number p number of
        Inl e \<Rightarrow> Inl e
      | Inr n \<Rightarrow>
          (let lo = nat (n - 1) * per_page p;
               hi = lo + per_page p;
               hi' = (if hi + orphans p \<ge> pcount p then pcount p else hi)
           in Inr \<lparr>page_object_list = slice (object_list p) lo hi',
                   page_number = n, page_paginator = p\<rparr>))"

definition get_page :: "int_fn \<Rightarrow> 'a paginator \<Rightarrow> string option \<Rightarrow> page_error + 'a page" where
  "get_page int_of p q =
     page p (case validate_number int_of p q of
               Inr n \<Rightarrow> n
             | Inl PageNotAnInteger \<Rightarrow> 1
             | Inl EmptyPage \<Rightarrow> num_pages p)"

text \<open>The spec's words for a page number out of range: clamped to the valid range, the
  nearest valid page.\<close>

definition nearest_valid_page :: "'a paginator \<Rightarrow> int \<Rightarrow> int" where
  "nearest_valid_page p n = max 1 (min (num_pages p) n)"

section \<open>Forms\<close>

text \<open>
  A Django form is bound when it was given data or files
  (\<^verbatim>\<open>is_bound = data is not None or files is not None\<close>); only a bound form is
  validated, and \<^verbatim>\<open>is_valid()\<close> is \<^verbatim>\<open>is_bound and not errors\<close>. Validating a model
  form writes the cleaned values into its instance. \<open>form_errors\<close> lists the fields
  that were rejected.
\<close>

record 'i form =
  form_bound :: bool
  form_data :: "string querydict"
  form_files :: "upload querydict"
  form_instance :: 'i
  form_errors :: "string list"

definition Form :: "string querydict option \<Rightarrow> upload querydict option \<Rightarrow> 'i \<Rightarrow> 'i form" where
  "Form data files inst =
     \<lparr>form_bound = (data \<noteq> None \<or> files \<noteq> None),
      form_data = (case data of None \<Rightarrow> [] | Some d \<Rightarrow> d),
      form_files = (case files of None \<Rightarrow> [] | Some f \<Rightarrow> f),
      form_instance = inst,
      form_errors = []\<rparr>"

definition is_valid :: "'i form \<Rightarrow> bool" where
  "is_valid f = (form_bound f \<and> form_errors f = [])"

definition new_Post :: post where
  "new_Post = \<lparr>post_id = None, post_text = [], post_author = None, post_group = None,
     post_image = None\<rparr>"

definition new_Comment :: comment where
  "new_Comment = \<lparr>comment_id = None, comment_post = None, comment_author = None,
     comment_text = []\<rparr>"

definition PostForm ::
  "string querydict option \<Rightarrow> upload querydict option \<Rightarrow> post option \<Rightarrow> post form" where
  "PostForm data files inst = Form data files (case inst of None \<Rightarrow> new_Post | Some p \<Rightarrow> p)"

definition CommentForm :: "string querydict option \<Rightarrow> comment form" where
  "CommentForm data = Form data None new_Comment"

text \<open>
  The fields of \<^verbatim>\<open>PostForm\<close> and \<^verbatim>\<open>CommentForm\<close> are declared in \<^verbatim>\<open>posts/forms.py\<close>,
  which is not among the sources. A cleaned field is \<open>None\<close> when it is rejected.
\<close>

text \<open>Modelled from the spec: the text field of both forms (declared in
  \<^verbatim>\<open>posts/forms.py\<close>) is required and non-empty.\<close>

definition clean_text :: "string querydict \<Rightarrow> string option" where
  "clean_text d =
     (case qd_get d ''text'' of
        None \<Rightarrow> None
      | Some t \<Rightarrow> if t = [] then None else Some t)"

text \<open>Modelled from the spec: the group field of \<^verbatim>\<open>PostForm\<close> (declared in
  \<^verbatim>\<open>posts/forms.py\<close>) is optional and must reference an existing group, by its primary
  key.\<close>

definition clean_group :: "int_fn \<Rightarrow> db \<Rightarrow> string querydict \<Rightarrow> pk option option" where
  "clean_group int_of d data =
     (case qd_get data ''group'' of
        None \<Rightarrow> Some None
      | Some s \<Rightarrow>
          if s = [] then Some None
          else (case int_of s of
                  None \<Rightarrow> None
                | Some n \<Rightarrow>
                    if 0 \<le> n \<and> list_ex (\<lambda>g. group_id g = nat n) (groups d)
                    then Some (Some (nat n)) else None))"

text \<open>Modelled from the spec: the image field of \<^verbatim>\<open>PostForm\<close> (declared in
  \<^verbatim>\<open>posts/forms.py\<close>) is optional and must decode as a supported image format. Without an
  upload the image of the instance stays as it is.\<close>

fun clean_upload :: "upload \<Rightarrow> string option" where
  "clean_upload (Image_file n) = Some n"
| "clean_upload (Non_image_file n) = None"

definition clean_image :: "upload querydict \<Rightarrow> string option \<Rightarrow> string option option" where
  "clean_image files current =
     (case qd_get files ''image'' of
        None \<Rightarrow> Some current
      | Some f \<Rightarrow> (case clean_upload f of None \<Rightarrow> None | Some n \<Rightarrow> Some (Some n)))"

text \<open>Modelled from the spec: \<^verbatim>\<open>PostForm\<close> (declared in \<^verbatim>\<open>posts/forms.py\<close>) has the
  fields text, group and image. Each field that is accepted is written into the instance.\<close>

definition PostForm_full_clean :: "int_fn \<Rightarrow> db \<Rightarrow> post form \<Rightarrow> post form" where
  "PostForm_full_clean int_of d f =
     (if \<not> form_bound f then f
      else
        (let t = clean_text (form_data f);
             g = clean_group int_of d (form_data f);
             i = clean_image (form_files f) (post_image (form_instance f));
             inst = form_instance f
         in f\<lparr>form_errors :=
                 (if t = None then [''text''] else []) @
                 (if g = None then [''group''] else []) @
                 (if i = None then [''image''] else []),
               form_instance :=
                 inst\<lparr>post_text := (case t of None \<Rightarrow> post_text inst | Some x \<Rightarrow> x),
                       post_group := (case g of None \<Rightarrow> post_group inst | Some x \<Rightarrow> x),
                       post_image := (case i of None \<Rightarrow> post_image inst | Some x \<Rightarrow> x)\<rparr>\<rparr>))"

text \<open>Modelled from the spec: \<^verbatim>\<open>CommentForm\<close> (declared in \<^verbatim>\<open>posts/forms.py\<close>) has the
  text field alone; the author and the post of a comment are not taken from the form.\<close>

definition CommentForm_full_clean :: "comment form \<Rightarrow> comment form" where
  "CommentForm_full_clean f =
     (if \<not> form_bound f then f
      else
        (let t = clean_text (form_data f); inst = form_instance f
         in f\<lparr>form_errors := (if t = None then [''text''] else []),
               form_instance :=
                 inst\<lparr>comment_text := (case t of None \<Rightarrow> comment_text inst | Some x \<Rightarrow> x)\<rparr>\<rparr>))"

section \<open>Queries and writes\<close>

text \<open>\<^verbatim>\<open>Model.save()\<close>: an instance without a primary key is inserted under a fresh one;
  one with a primary key replaces the row of that key, or is inserted when there is none.\<close>

definition Post_save :: "post \<Rightarrow> db \<Rightarrow> db" where
  "Post_save p d =
     (case post_id p of
        None \<Rightarrow> d\<lparr>posts := posts d @ [p\<lparr>post_id := Some (fresh_pk (map post_id (posts d)))\<rparr>]\<rparr>
      | Some k \<Rightarrow>
          if list_ex (\<lambda>q. post_id q = Some k) (posts d)
          then d\<lparr>posts := map (\<lambda>q. if post_id q = Some k then p else q) (posts d)\<rparr>
          else d\<lparr>posts := posts d @ [p]\<rparr>)"

definition Comment_save :: "comment \<Rightarrow> db \<Rightarrow> db" where
  "Comment_save c d =
     (case comment_id c of
        None \<Rightarrow>
          d\<lparr>comments := comments d @ [c\<lparr>comment_id := Some (fresh_pk (map comment_id (comments d)))\<rparr>]\<rparr>
      | Some k \<Rightarrow>
          if list_ex (\<lambda>q. comment_id q = Some k) (comments d)
          then d\<lparr>comments := map (\<lambda>q. if comment_id q = Some k then c else q) (comments d)\<rparr>
          else d\<lparr>comments := comments d @ [c]\<rparr>)"

text \<open>\<^verbatim>\<open>Follow.objects.create(user=..., author=...)\<close>\<close>

definition Follow_create :: "pk \<Rightarrow> pk \<Rightarrow> db \<Rightarrow> db" where
  "Follow_create u a d =
     d\<lparr>follows := follows d @
        [\<lparr>follow_id = Some (fresh_pk (map follow_id (follows d))), follow_user = u,
          follow_author = a\<rparr>]\<rparr>"

text \<open>\<^verbatim>\<open>Follow.objects.filter(user=..., author=...)\<close>\<close>

definition Follow_filter :: "db \<Rightarrow> pk \<Rightarrow> pk \<Rightarrow> follow list" where
  "Follow_filter d u a = filter (\<lambda>f. follow_user f = u \<and> follow_author f = a) (follows d)"

definition Follow_delete :: "pk \<Rightarrow> pk \<Rightarrow> db \<Rightarrow> db" where
  "Follow_delete u a d =
     d\<lparr>follows := filter (\<lambda>f. \<not> (follow_user f = u \<and> follow_author f = a)) (follows d)\<rparr>"

text \<open>\<^verbatim>\<open>get_object_or_404\<close> on the rows a query selects: exactly one row is returned,
  none raises \<^verbatim>\<open>Http404\<close>, several raise \<^verbatim>\<open>MultipleObjectsReturned\<close>.\<close>

fun get_object_or_404 :: "'a list \<Rightarrow> error + 'a" where
  "get_object_or_404 [] = Inl Http404"
| "get_object_or_404 [x] = Inr x"
| "get_object_or_404 (x # y # zs) = Inl MultipleObjectsReturned"

definition User_by_username :: "db \<Rightarrow> string \<Rightarrow> user list" where
  "User_by_username d name = filter (\<lambda>u. username u = name) (users d)"

definition Group_by_slug :: "db \<Rightarrow> string \<Rightarrow> group list" where
  "Group_by_slug d s = filter (\<lambda>g. slug g = s) (groups d)"

text \<open>\<^verbatim>\<open>Post\<close> rows with \<^verbatim>\<open>pk=post_id, author__username=username\<close>: the join of the posts
  with their authors.\<close>

definition Post_by_pk_author :: "db \<Rightarrow> pk \<Rightarrow> string \<Rightarrow> post list" where
  "Post_by_pk_author d k name =
     [p. p \<leftarrow> posts d, u \<leftarrow> users d,
         post_id p = Some k \<and> post_author p = Some (user_id u) \<and> username u = name]"

text \<open>Modelled from the spec: the default order of the posts is newest first
  (the ordering is declared in \<^verbatim>\<open>posts/models.py\<close>).\<close>

definition Post_objects_all :: "db \<Rightarrow> post list" where
  "Post_objects_all d = rev (posts d)"

text \<open>\<^verbatim>\<open>group.posts.all()\<close>, \<^verbatim>\<open>author.author_posts.all()\<close>, \<^verbatim>\<open>post.comments.all()\<close>\<close>

definition group_posts_all :: "db \<Rightarrow> group \<Rightarrow> post list" where
  "group_posts_all d g = filter (\<lambda>p. post_group p = Some (group_id g)) (Post_objects_all d)"

definition author_posts_all :: "db \<Rightarrow> user \<Rightarrow> post list" where
  "author_posts_all d a = filter (\<lambda>p. post_author p = Some (user_id a)) (Post_objects_all d)"

definition post_comments_all :: "db \<Rightarrow> post \<Rightarrow> comment list" where
  "post_comments_all d p = filter (\<lambda>c. comment_post c = post_id p) (comments d)"

text \<open>\<^verbatim>\<open>Post.objects.filter(author__following__user=request.user)\<close>: the join of the posts
  with the follow rows of their authors, one row for each follow row of the user.\<close>

definition Post_by_following_user :: "db \<Rightarrow> pk \<Rightarrow> post list" where
  "Post_by_following_user d u =
     [p. p \<leftarrow> Post_objects_all d, f \<leftarrow> follows d,
         post_author p = Some (follow_author f) \<and> follow_user f = u]"

section \<open>Responses\<close>

datatype target = To_index | To_post_view string pk | To_profile string | To_login string

datatype view_context =
    Index_ctx "post page" "post paginator"
  | Group_ctx group "post page" "post paginator"
  | Post_form_ctx "post form" bool "post option"
  | Profile_ctx user "post page" "post paginator" nat bool
  | Post_view_ctx user string post nat "comment form" "comment list"
  | Comments_ctx "comment form" post
  | Follow_ctx user nat "post page" "post paginator"

datatype response = Render string view_context nat | Redirect target

type_synonym result = "(error + response) \<times> db"

text \<open>The page of a request: \<^verbatim>\<open>paginator.get_page(request.GET.get("page"))\<close>.\<close>

definition paginate :: "int_fn \<Rightarrow> request \<Rightarrow> 'a paginator \<Rightarrow> error + 'a page" where
  "paginate int_of req p =
     (case get_page int_of p (qd_get (req_GET req) ''page'') of
        Inl e \<Rightarrow> Inl (Page_error e)
      | Inr pg \<Rightarrow> Inr pg)"

section \<open>The decorators\<close>

text \<open>
  \<^verbatim>\<open>@login_required\<close>: an anonymous request is redirected to the login route, with the
  requested path as the \<^verbatim>\<open>next\<close> parameter, and the view does not run.
\<close>

definition login_required :: "(request \<Rightarrow> db \<Rightarrow> result) \<Rightarrow> request \<Rightarrow> db \<Rightarrow> result" where
  "login_required view req d =
     (case req_user req of
        None \<Rightarrow> (Inr (Redirect (To_login (req_full_path req))), d)
      | Some u \<Rightarrow> view req d)"

text \<open>
  \<^verbatim>\<open>@cache_page(timeout, key_prefix=...)\<close>, with the clock as an argument. An entry of the
  cache is a response with the time at which it expires; it is live while the clock is
  before that time. A \<^verbatim>\<open>GET\<close> or \<^verbatim>\<open>HEAD\<close> request is answered from a live entry of its
  key (the prefix, the method and the full path of the request) without running the
  view; otherwise the view runs, and its response is stored for \<open>timeout\<close> seconds when
  its status is 200. Reading an entry does not change its expiry time.
\<close>

type_synonym cache_key = "string \<times> http_method \<times> string"

type_synonym cache = "cache_key \<Rightarrow> (real \<times> response) option"

definition cache_get :: "cache \<Rightarrow> real \<Rightarrow> cache_key \<Rightarrow> response option" where
  "cache_get c now k =
     (case c k of
        None \<Rightarrow> None
      | Some (expiry, r) \<Rightarrow> if expiry \<le> now then None else Some r)"

definition cache_set :: "cache \<Rightarrow> real \<Rightarrow> cache_key \<Rightarrow> response \<Rightarrow> real \<Rightarrow> cache" where
  "cache_set c now k r timeout = c(k \<mapsto> (now + timeout, r))"

definition fetch_from_cache :: "cache \<Rightarrow> real \<Rightarrow> string \<Rightarrow> request \<Rightarrow> response option" where
  "fetch_from_cache c now prefix req =
     (case cache_get c now (prefix, GET, req_full_path req) of
        Some r \<Rightarrow> Some r
      | None \<Rightarrow>
          if req_method req = HEAD then cache_get c now (prefix, HEAD, req_full_path req)
          else None)"

definition update_cache ::
  "cache \<Rightarrow> real \<Rightarrow> real \<Rightarrow> string \<Rightarrow> request \<Rightarrow> error + response \<Rightarrow> cache" where
  "update_cache c now timeout prefix req res =
     (case res of
        Inr (Render t ctx status) \<Rightarrow>
          if timeout \<noteq> 0 \<and> status = 200
          then cache_set c now (prefix, req_method req, req_full_path req) (Render t ctx status)
                 timeout
          else c
      | _ \<Rightarrow> c)"

definition cache_page ::
  "real \<Rightarrow> string \<Rightarrow> (request \<Rightarrow> db \<Rightarrow> result) \<Rightarrow> real \<Rightarrow> request \<Rightarrow> db \<Rightarrow> cache \<Rightarrow> result \<times> cache" where
  "cache_page timeout prefix view now req d c =
     (if req_method req \<noteq> GET \<and> req_method req \<noteq> HEAD then (view req d, c)
      else (case fetch_from_cache c now prefix req of
              Some r \<Rightarrow> ((Inr r, d), c)
            | None \<Rightarrow>
                (let res = view req d
                 in (res, update_cache c now timeout prefix req (fst res)))))"

section \<open>The views\<close>

definition index_body :: "int_fn \<Rightarrow> request \<Rightarrow> db \<Rightarrow> result" where
  "index_body int_of req d =
     (let post_list = Post_objects_all d;
          paginator = Paginator post_list 10
      in case paginate int_of req paginator of
           Inl e \<Rightarrow> (Inl e, d)
         | Inr pg \<Rightarrow> (Inr (Render ''index.html'' (Index_ctx pg paginator) 200), d))"

definition index :: "int_fn \<Rightarrow> real \<Rightarrow> request \<Rightarrow> db \<Rightarrow> cache \<Rightarrow> result \<times> cache" where
  "index int_of = cache_page 20 ''index_page'' (index_body int_of)"

definition group_posts :: "int_fn \<Rightarrow> request \<Rightarrow> string \<Rightarrow> db \<Rightarrow> result" where
  "group_posts int_of req slug' d =
     (case get_object_or_404 (Group_by_slug d slug') of
        Inl e \<Rightarrow> (Inl e, d)
      | Inr g \<Rightarrow>
          (let posts' = group_posts_all d g;
               paginator = Paginator posts' 10
           in case paginate int_of req paginator of
                Inl e \<Rightarrow> (Inl e, d)
              | Inr pg \<Rightarrow> (Inr (Render ''group.html'' (Group_ctx g pg paginator) 200), d)))"

definition new_post_body :: "int_fn \<Rightarrow> request \<Rightarrow> db \<Rightarrow> result" where
  "new_post_body int_of req d =
     (let form = PostForm_full_clean int_of d (PostForm (or_None (req_POST req)) None None)
      in if \<not> is_valid form
         then (Inr (Render ''posts/new_post.html'' (Post_form_ctx form False None) 200), d)
         else (case req_user req of
                 None \<Rightarrow> (Inl Anonymous_user_error, d)
               | Some u \<Rightarrow>
                   (let post = (form_instance form)\<lparr>post_author := Some (user_id u)\<rparr>
                    in (Inr (Redirect To_index), Post_save post d))))"

definition new_post :: "int_fn \<Rightarrow> request \<Rightarrow> db \<Rightarrow> result" where
  "new_post int_of = login_required (new_post_body int_of)"

definition profile :: "int_fn \<Rightarrow> request \<Rightarrow> string \<Rightarrow> db \<Rightarrow> result" where
  "profile int_of req username' d =
     (case get_object_or_404 (User_by_username d username') of
        Inl e \<Rightarrow> (Inl e, d)
      | Inr author \<Rightarrow>
          (let following =
                 (case req_user req of
                    None \<Rightarrow> False
                  | Some u \<Rightarrow> Follow_filter d (user_id u) (user_id author) \<noteq> []);
               post_list = author_posts_all d author;
               count_posts = length post_list;
               paginator = Paginator post_list 10
           in case paginate int_of req paginator of
                Inl e \<Rightarrow> (Inl e, d)
              | Inr pg \<Rightarrow>
                  (Inr (Render ''profile.html''
                          (Profile_ctx author pg paginator count_posts following) 200), d)))"

text \<open>\<^verbatim>\<open>CommentForm(request.POST)\<close>: the form is given the dictionary itself.\<close>

definition post_view :: "request \<Rightarrow> string \<Rightarrow> pk \<Rightarrow> db \<Rightarrow> result" where
  "post_view req username' post_id' d =
     (case get_object_or_404 (User_by_username d username') of
        Inl e \<Rightarrow> (Inl e, d)
      | Inr author \<Rightarrow>
          (case get_object_or_404 (Post_by_pk_author d post_id' username') of
             Inl e \<Rightarrow> (Inl e, d)
           | Inr post \<Rightarrow>
               (let count_posts = length (author_posts_all d author);
                    form = CommentForm (Some (req_POST req));
                    comments' = post_comments_all d post
                in (Inr (Render ''post_view.html''
                           (Post_view_ctx author username' post count_posts form comments') 200),
                    d))))"

text \<open>\<^verbatim>\<open>request.user != post.author\<close> compares primary keys; the anonymous user differs
  from every user.\<close>

definition user_is :: "user option \<Rightarrow> pk option \<Rightarrow> bool" where
  "user_is u a = (case u of None \<Rightarrow> False | Some v \<Rightarrow> a = Some (user_id v))"

text \<open>The form is built on \<open>post\<close> itself (\<^verbatim>\<open>instance=post\<close>), so after validation
  \<open>post\<close> is the instance of the form.\<close>

definition post_edit_body :: "int_fn \<Rightarrow> string \<Rightarrow> pk \<Rightarrow> request \<Rightarrow> db \<Rightarrow> result" where
  "post_edit_body int_of username' post_id' req d =
     (case get_object_or_404 (Post_by_pk_author d post_id' username') of
        Inl e \<Rightarrow> (Inl e, d)
      | Inr post \<Rightarrow>
          if \<not> user_is (req_user req) (post_author post)
          then (Inr (Redirect (To_post_view username' post_id')), d)
          else
            (let form = PostForm_full_clean int_of d
                          (PostForm (or_None (req_POST req)) (or_None (req_FILES req)) (Some post))
             in if \<not> is_valid form
                then (Inr (Render ''posts/new_post.html''
                             (Post_form_ctx form True (Some (form_instance form))) 200), d)
                else (Inr (Redirect (To_post_view username' post_id')),
                      Post_save (form_instance form) d)))"

definition post_edit :: "int_fn \<Rightarrow> request \<Rightarrow> string \<Rightarrow> pk \<Rightarrow> db \<Rightarrow> result" where
  "post_edit int_of req username' post_id' = login_required (post_edit_body int_of username' post_id') req"

text \<open>\<^verbatim>\<open>comment = form.save(commit=False)\<close> is the instance of the form itself, so the two
  assignments change the instance that \<^verbatim>\<open>form.save()\<close> then writes.\<close>

definition add_comment_body :: "string \<Rightarrow> pk \<Rightarrow> request \<Rightarrow> db \<Rightarrow> result" where
  "add_comment_body username' post_id' req d =
     (case get_object_or_404 (Post_by_pk_author d post_id' username') of
        Inl e \<Rightarrow> (Inl e, d)
      | Inr post \<Rightarrow>
          (let form = CommentForm_full_clean (CommentForm (or_None (req_POST req)))
           in if \<not> is_valid form
              then (Inr (Render ''includes/comments.html'' (Comments_ctx form post) 200), d)
              else (case req_user req of
                      None \<Rightarrow> (Inl Anonymous_user_error, d)
                    | Some u \<Rightarrow>
                        (let comment = form_instance form;
                             comment = comment\<lparr>comment_author := Some (user_id u)\<rparr>;
                             comment = comment\<lparr>comment_post := post_id post\<rparr>;
                             form = form\<lparr>form_instance := comment\<rparr>
                         in (Inr (Redirect (To_post_view username' post_id')),
                             Comment_save (form_instance form) d)))))"

definition add_comment :: "request \<Rightarrow> string \<Rightarrow> pk \<Rightarrow> db \<Rightarrow> result" where
  "add_comment req username' post_id' = login_required (add_comment_body username' post_id') req"

definition follow_index_body :: "int_fn \<Rightarrow> request \<Rightarrow> db \<Rightarrow> result" where
  "follow_index_body int_of req d =
     (case req_user req of
        None \<Rightarrow> (Inl Anonymous_user_error, d)
      | Some u \<Rightarrow>
          (case get_object_or_404 (User_by_username d (username u)) of
             Inl e \<Rightarrow> (Inl e, d)
           | Inr author \<Rightarrow>
               (let post_list = Post_by_following_user d (user_id u);
                    count_posts = length post_list;
                    paginator = Paginator post_list 10
                in case paginate int_of req paginator of
                     Inl e \<Rightarrow> (Inl e, d)
                   | Inr pg \<Rightarrow>
                       (Inr (Render ''follow.html'' (Follow_ctx author count_posts pg paginator) 200),
                        d))))"

definition follow_index :: "int_fn \<Rightarrow> request \<Rightarrow> db \<Rightarrow> result" where
  "follow_index int_of = login_required (follow_index_body int_of)"

definition profile_follow_body :: "string \<Rightarrow> request \<Rightarrow> db \<Rightarrow> result" where
  "profile_follow_body username' req d =
     (case get_object_or_404 (User_by_username d username') of
        Inl e \<Rightarrow> (Inl e, d)
      | Inr author \<Rightarrow>
          (case req_user req of
             None \<Rightarrow> (Inl Anonymous_user_error, d)
           | Some u \<Rightarrow>
               (let follow = (Follow_filter d (user_id u) (user_id author) \<noteq> [])
                in if \<not> (user_id u = user_id author) \<and> follow = False
                   then (Inr (Redirect (To_profile username')),
                         Follow_create (user_id u) (user_id author) d)
                   else (Inr (Redirect (To_profile username')), d))))"

definition profile_follow :: "request \<Rightarrow> string \<Rightarrow> db \<Rightarrow> result" where
  "profile_follow req username' = login_required (profile_follow_body username') req"

definition profile_unfollow_body :: "string \<Rightarrow> request \<Rightarrow> db \<Rightarrow> result" where
  "profile_unfollow_body username' req d =
     (case get_object_or_404 (User_by_username d username') of
        Inl e \<Rightarrow> (Inl e, d)
      | Inr author \<Rightarrow>
          (case req_user req of
             None \<Rightarrow> (Inl Anonymous_user_error, d)
           | Some u \<Rightarrow>
               (Inr (Redirect (To_profile username')),
                Follow_delete (user_id u) (user_id author) d)))"

definition profile_unfollow :: "request \<Rightarrow> string \<Rightarrow> db \<Rightarrow> result" where
  "profile_unfollow req username' = login_required (profile_unfollow_body username') req"

section \<open>The site as a state machine\<close>

text \<open>A call names a view with the arguments its route takes from the path. The state of
  the site is the tables and the cache of the index page.\<close>

datatype call =
    Index
  | Group_posts string
  | New_post
  | Profile string
  | Post_view string pk
  | Post_edit string pk
  | Add_comment string pk
  | Follow_index
  | Profile_follow string
  | Profile_unfollow string

fun handle ::
  "int_fn \<Rightarrow> call \<Rightarrow> real \<Rightarrow> request \<Rightarrow> db \<times> cache \<Rightarrow> (error + response) \<times> db \<times> cache" where
  "handle int_of Index now req (d, c) =
     (case index int_of now req d c of ((r, d'), c') \<Rightarrow> (r, d', c'))"
| "handle int_of (Group_posts s) now req (d, c) =
     (case group_posts int_of req s d of (r, d') \<Rightarrow> (r, d', c))"
| "handle int_of New_post now req (d, c) =
     (case new_post int_of req d of (r, d') \<Rightarrow> (r, d', c))"
| "handle int_of (Profile n) now req (d, c) =
     (case profile int_of req n d of (r, d') \<Rightarrow> (r, d', c))"
| "handle int_of (Post_view n k) now req (d, c) =
     (case post_view req n k d of (r, d') \<Rightarrow> (r, d', c))"
| "handle int_of (Post_edit n k) now req (d, c) =
     (case post_edit int_of req n k d of (r, d') \<Rightarrow> (r, d', c))"
| "handle int_of (Add_comment n k) now req (d, c) =
     (case add_comment req n k d of (r, d') \<Rightarrow> (r, d', c))"
| "handle int_of Follow_index now req (d, c) =
     (case follow_index int_of req d of (r, d') \<Rightarrow> (r, d', c))"
| "handle int_of (Profile_follow n) now req (d, c) =
     (case profile_follow req n d of (r, d') \<Rightarrow> (r, d', c))"
| "handle int_of (Profile_unfollow n) now req (d, c) =
     (case profile_unfollow req n d of (r, d') \<Rightarrow> (r, d', c))"

text \<open>The states the site reaches from an empty follow table by calls of the views.\<close>

inductive reachable :: "int_fn \<Rightarrow> db \<times> cache \<Rightarrow> bool" for int_of where
  initial: "follows d = [] \<Longrightarrow> reachable int_of (d, c)"
| step: "reachable int_of s \<Longrightarrow> reachable int_of (snd (handle int_of call now req s))"

text \<open>A list of calls, each with its time and its request, handled one after the other.\<close>

fun run :: "int_fn \<Rightarrow> (call \<times> real \<times> request) list \<Rightarrow> db \<times> cache \<Rightarrow> db \<times> cache" where
  "run int_of [] s = s"
| "run int_of ((call, now, req) # es) s = run int_of es (snd (handle int_of call now req s))"

text \<open>The invariant of the follow table: no two rows with the same user and author, and
  no row of a user following themselves.\<close>

definition follow_inv :: "db \<Rightarrow> bool" where
  "follow_inv d =
     (distinct (map (\<lambda>f. (follow_user f, follow_author f)) (follows d)) \<and>
      list_all (\<lambda>f. follow_user f \<noteq> follow_author f) (follows d))"

section \<open>Example data\<close>

text \<open>Two users, a post of each, and a request of the first user: the data of the
  examples below.\<close>

definition ex_user :: user where
  "ex_user = \<lparr>user_id = 1, username = ''test_user''\<rparr>"

definition ex_leo :: user where
  "ex_leo = \<lparr>user_id = 2, username = ''leo''\<rparr>"

definition ex_post :: post where
  "ex_post = \<lparr>post_id = Some 1, post_text = ''Test post!'', post_author = Some 2,
     post_group = None, post_image = None\<rparr>"

definition ex_own_post :: post where
  "ex_own_post = \<lparr>post_id = Some 2, post_text = ''Text test!'', post_author = Some 1,
     post_group = None, post_image = None\<rparr>"

definition ex_db :: db where
  "ex_db = \<lparr>users = [ex_user, ex_leo], groups = [], posts = [ex_post, ex_own_post],
     comments = [], follows = []\<rparr>"

definition ex_request :: request where
  "ex_request = \<lparr>req_method = GET, req_full_path = ''/'', req_user = Some ex_user,
     req_GET = [], req_POST = [], req_FILES = []\<rparr>"

section \<open>Pagination\<close>

lemma num_pages_ge1: "1 \<le> num_pages (Paginator xs 10)"
  by (simp add: num_pages_def Paginator_def pcount_def)

lemma page_in_range:
  assumes "1 \<le> n" and "n \<le> num_pages (Paginator xs 10)"
  shows "page (Paginator xs 10) n =
    Inr \<lparr>page_object_list = take 10 (drop (nat (n - 1) * 10) xs),
         page_number = n, page_paginator = Paginator xs 10\<rparr>"
  using assms
  by (auto simp: page_def check_number_def Let_def slice_def pcount_def Paginator_def)

lemma get_page_total:
  "get_page int_of (Paginator xs 10) q =
    Inr \<lparr>page_object_list =
           take 10 (drop (nat ((case to_int int_of q of
                                  None \<Rightarrow> 1
                                | Some n \<Rightarrow>
                                    if 1 \<le> n \<and> n \<le> num_pages (Paginator xs 10) then n
                                    else num_pages (Paginator xs 10)) - 1) * 10) xs),
         page_number =
           (case to_int int_of q of
              None \<Rightarrow> 1
            | Some n \<Rightarrow>
                if 1 \<le> n \<and> n \<le> num_pages (Paginator xs 10) then n
                else num_pages (Paginator xs 10)),
         page_paginator = Paginator xs 10\<rparr>"
proof -
  let ?p = "Paginator xs 10"
  let ?n = "case to_int int_of q of None \<Rightarrow> 1
            | Some n \<Rightarrow> if 1 \<le> n \<and> n \<le> num_pages ?p then n else num_pages ?p"
  have n: "(case validate_number int_of ?p q of Inr n \<Rightarrow> n | Inl PageNotAnInteger \<Rightarrow> 1
            | Inl EmptyPage \<Rightarrow> num_pages ?p) = ?n"
    using num_pages_ge1[of xs]
    by (auto simp: validate_number_def check_number_def split: option.splits)
  have r: "1 \<le> ?n" "?n \<le> num_pages ?p"
    using num_pages_ge1[of xs] by (auto split: option.splits)
  have "get_page int_of ?p q = page ?p ?n"
    unfolding get_page_def n ..
  with page_in_range[OF r] show ?thesis by simp
qed

lemma paginate_total:
  "\<exists>pg. paginate int_of req (Paginator xs 10) = Inr pg \<and> page_paginator pg = Paginator xs 10 \<and>
        set (page_object_list pg) \<subseteq> set xs"
proof -
  have "set (take 10 (drop k xs)) \<subseteq> set xs" for k
    by (meson order_trans set_drop_subset set_take_subset)
  then show ?thesis
    by (simp add: paginate_def get_page_total)
qed

lemma index_body_render:
  "\<exists>pg. paginate int_of req (Paginator (Post_objects_all d) 10) = Inr pg \<and>
        index_body int_of req d =
          (Inr (Render ''index.html'' (Index_ctx pg (Paginator (Post_objects_all d) 10)) 200), d)"
  using paginate_total[of int_of req "Post_objects_all d"]
  by (auto simp: index_body_def Let_def)

text \<open>
  C6 (as amended). For every sequence and every value of the page parameter, the page of
  a request is a slice of at most 10 items of the sequence, and pagination never fails.
  An absent parameter gives page 1, and so does one that \<^verbatim>\<open>int\<close> does not read as an
  integer; an integer within the range of pages gives that page; an integer out of range,
  below 1 as well as above the number of pages, gives the last page. The index view renders
  this page of all posts.
\<close>

theorem paginate_page:
  "(\<exists>pg. paginate int_of req (Paginator xs 10) = Inr pg \<and>
         length (page_object_list pg) \<le> 10 \<and>
         page_object_list pg = take 10 (drop (nat (page_number pg - 1) * 10) xs) \<and>
         page_number pg =
           (case qd_get (req_GET req) ''page'' of
              None \<Rightarrow> 1
            | Some s \<Rightarrow>
                (case int_of s of
                   None \<Rightarrow> 1
                 | Some n \<Rightarrow>
                     if 1 \<le> n \<and> n \<le> num_pages (Paginator xs 10) then n
                     else num_pages (Paginator xs 10)))) \<and>
   (\<exists>pg. paginate int_of req (Paginator (Post_objects_all d) 10) = Inr pg \<and>
         index_body int_of req d =
           (Inr (Render ''index.html'' (Index_ctx pg (Paginator (Post_objects_all d) 10)) 200), d))"
proof -
  have "\<exists>pg. paginate int_of req (Paginator xs 10) = Inr pg \<and>
         length (page_object_list pg) \<le> 10 \<and>
         page_object_list pg = take 10 (drop (nat (page_number pg - 1) * 10) xs) \<and>
         page_number pg =
           (case qd_get (req_GET req) ''page'' of
              None \<Rightarrow> 1
            | Some s \<Rightarrow>
                (case int_of s of
                   None \<Rightarrow> 1
                 | Some n \<Rightarrow>
                     if 1 \<le> n \<and> n \<le> num_pages (Paginator xs 10) then n
                     else num_pages (Paginator xs 10)))"
    by (simp add: paginate_def get_page_total to_int_def split: option.splits)
  with index_body_render[of int_of req d] show ?thesis
    by blast
qed

text \<open>
  C6 as stated fails where the page number is too low: with 25 posts, the page parameter
  \<^verbatim>\<open>0\<close> is answered with page 3, the last one, and not with page 1, the nearest valid
  page.
\<close>

theorem paginate_page_zero_counterexample:
  "to_int ascii_int (Some ''0'') = Some 0 \<and>
   get_page ascii_int (Paginator [0 ..< 25] 10) (Some ''0'') =
     Inr \<lparr>page_object_list = [20, 21, 22, 23, 24], page_number = 3,
          page_paginator = Paginator [0 ..< 25] 10\<rparr> \<and>
   nearest_valid_page (Paginator [0 ..< 25] 10) 0 = 1"
proof -
  have z: "to_int ascii_int (Some ''0'') = Some 0"
    by (simp add: to_int_def ascii_int_def py_strip_def is_py_space_def is_digit_def digit_val_def)
  have len: "length [0 ..< 25] = 25"
    by simp
  have np: "num_pages (Paginator [0 ..< 25] 10) = 3"
    unfolding num_pages_def pcount_def Paginator_def by (simp del: upt.simps)
  have "[0 ..< 25] = [0 ..< 20] @ [20, 21, 22, 23, 24]"
    by (simp add: upt_rec)
  then have "drop 20 [0 ..< 25] = [20, 21, 22, 23, 24]"
    by (metis append_eq_conv_conj diff_zero length_upt)
  then have "get_page ascii_int (Paginator [0 ..< 25] 10) (Some ''0'') =
     Inr \<lparr>page_object_list = [20, 21, 22, 23, 24], page_number = 3,
          page_paginator = Paginator [0 ..< 25] 10\<rparr>"
    unfolding get_page_total z np by simp
  moreover have "nearest_valid_page (Paginator [0 ..< 25] 10) 0 = 1"
    unfolding nearest_valid_page_def np by simp
  ultimately show ?thesis using z by blast
qed

section \<open>The views: authorization, follows and the feed\<close>


lemma follows_Post_save: "follows (Post_save p d) = follows d"
  by (simp add: Post_save_def split: option.splits)

lemma follows_Comment_save: "follows (Comment_save c d) = follows d"
  by (simp add: Comment_save_def split: option.splits)

lemma follows_login_required:
  assumes "\<And>req d. follows (snd (view req d)) = follows d"
  shows "follows (snd (login_required view req d)) = follows d"
  using assms by (simp add: login_required_def split: option.splits)

lemma follows_new_post: "follows (snd (new_post int_of req d)) = follows d"
  unfolding new_post_def
  by (rule follows_login_required)
     (simp add: new_post_body_def Let_def follows_Post_save split: option.splits)

lemma follows_post_edit: "follows (snd (post_edit int_of req n k d)) = follows d"
  unfolding post_edit_def
  by (rule follows_login_required)
     (simp add: post_edit_body_def Let_def follows_Post_save split: sum.splits)

lemma follows_add_comment: "follows (snd (add_comment req n k d)) = follows d"
  unfolding add_comment_def
  by (rule follows_login_required)
     (simp add: add_comment_body_def Let_def follows_Comment_save split: sum.splits option.splits)

lemma db_index_body: "snd (index_body int_of req d) = d"
  by (simp add: index_body_def Let_def split: sum.splits)

lemma db_cache_page:
  assumes "\<And>req d. snd (view req d) = d"
  shows "snd (fst (cache_page timeout prefix view now req d c)) = d"
  using assms by (simp add: cache_page_def Let_def split: option.splits)

lemma db_index: "snd (fst (index int_of now req d c)) = d"
  unfolding index_def by (rule db_cache_page) (rule db_index_body)

lemma db_group_posts: "snd (group_posts int_of req s d) = d"
  by (simp add: group_posts_def Let_def split: sum.splits)

lemma db_profile: "snd (profile int_of req n d) = d"
  by (simp add: profile_def Let_def split: sum.splits)

lemma db_post_view: "snd (post_view req n k d) = d"
  by (simp add: post_view_def Let_def split: sum.splits)

lemma db_follow_index: "snd (follow_index int_of req d) = d"
  by (simp add: follow_index_def login_required_def follow_index_body_def Let_def
      split: sum.splits option.splits)

lemma follow_inv_create:
  assumes "follow_inv d" and "u \<noteq> a" and "Follow_filter d u a = []"
  shows "follow_inv (Follow_create u a d)"
proof -
  from assms(3) have "(u, a) \<notin> set (map (\<lambda>f. (follow_user f, follow_author f)) (follows d))"
    by (auto simp: Follow_filter_def filter_empty_conv)
  with assms(1,2) show ?thesis
    by (simp add: follow_inv_def Follow_create_def)
qed

lemma follow_inv_delete:
  assumes "follow_inv d"
  shows "follow_inv (Follow_delete u a d)"
  using assms
  by (simp add: follow_inv_def Follow_delete_def distinct_map_filter list_all_iff)

lemma follow_inv_profile_follow:
  assumes "follow_inv d"
  shows "follow_inv (snd (profile_follow req n d))"
  using assms
  by (auto simp: profile_follow_def login_required_def profile_follow_body_def Let_def
      follow_inv_create split: option.splits sum.splits)

lemma follow_inv_profile_unfollow:
  assumes "follow_inv d"
  shows "follow_inv (snd (profile_unfollow req n d))"
  using assms
  by (auto simp: profile_unfollow_def login_required_def profile_unfollow_body_def
      follow_inv_delete split: option.splits sum.splits)

lemma follow_inv_cong: "follows d' = follows d \<Longrightarrow> follow_inv d \<Longrightarrow> follow_inv d'"
  by (simp add: follow_inv_def)

lemma db_handle:
  "fst (snd (handle int_of call now req (d, c))) =
     (case call of
        Index \<Rightarrow> snd (fst (index int_of now req d c))
      | Group_posts s \<Rightarrow> snd (group_posts int_of req s d)
      | New_post \<Rightarrow> snd (new_post int_of req d)
      | Profile n \<Rightarrow> snd (profile int_of req n d)
      | Post_view n k \<Rightarrow> snd (post_view req n k d)
      | Post_edit n k \<Rightarrow> snd (post_edit int_of req n k d)
      | Add_comment n k \<Rightarrow> snd (add_comment req n k d)
      | Follow_index \<Rightarrow> snd (follow_index int_of req d)
      | Profile_follow n \<Rightarrow> snd (profile_follow req n d)
      | Profile_unfollow n \<Rightarrow> snd (profile_unfollow req n d))"
  by (cases call) (simp_all split: prod.splits)

lemma follow_inv_handle:
  assumes "follow_inv (fst s)"
  shows "follow_inv (fst (snd (handle int_of call now req s)))"
proof (cases s)
  case (Pair d c)
  with assms have inv: "follow_inv d" by simp
  have "follow_inv (fst (snd (handle int_of call now req (d, c))))"
    unfolding db_handle using inv
    by (cases call)
       (simp_all add: db_index db_group_posts db_profile db_post_view db_follow_index
          follow_inv_cong[OF follows_new_post] follow_inv_cong[OF follows_post_edit]
          follow_inv_cong[OF follows_add_comment] follow_inv_profile_follow
          follow_inv_profile_unfollow)
  with Pair show ?thesis by simp
qed

lemma reachable_follow_inv: "reachable int_of s \<Longrightarrow> follow_inv (fst s)"
proof (induction rule: reachable.induct)
  case (initial d c)
  then show ?case by (simp add: follow_inv_def)
next
  case (step s call now req)
  from step.IH show ?case by (rule follow_inv_handle)
qed

lemma profile_follow_twice:
  "snd (profile_follow req n (snd (profile_follow req n d))) = snd (profile_follow req n d)"
  apply (auto simp: profile_follow_def login_required_def profile_follow_body_def Let_def
      User_by_username_def Follow_create_def Follow_filter_def
      split: option.splits sum.splits)
  done


lemma set_Post_by_following_user:
  "set (Post_by_following_user d u) =
     {p \<in> set (posts d). \<exists>f \<in> set (follows d). follow_user f = u \<and> post_author p = Some (follow_author f)}"
  by (auto simp: Post_by_following_user_def Post_objects_all_def)

lemma every_item_on_a_page:
  assumes "p \<in> set xs"
  shows "\<exists>n. 1 \<le> n \<and> n \<le> num_pages (Paginator xs 10) \<and>
             p \<in> set (take 10 (drop (nat (n - 1) * 10) xs))"
proof -
  from assms obtain i where i: "i < length xs" "xs ! i = p"
    by (auto simp: in_set_conv_nth)
  let ?n = "int (i div 10) + 1"
  have lo: "1 \<le> ?n" by simp
  have "i div 10 + 1 \<le> (length xs + 9) div 10"
    using i(1) by linarith
  then have hi: "?n \<le> num_pages (Paginator xs 10)"
    using i(1) by (simp add: num_pages_def Paginator_def pcount_def max_def)
  have n: "nat (?n - 1) * 10 = i div 10 * 10" by simp
  have j: "i div 10 * 10 + i mod 10 = i" by simp
  have "drop (i div 10 * 10) xs ! (i mod 10) = p"
    using i by (simp add: j)
  moreover have "i mod 10 < length xs - i div 10 * 10"
    using i(1) by presburger
  then have "i mod 10 < length (drop (i div 10 * 10) xs)"
    by simp
  ultimately have "p \<in> set (take 10 (drop (i div 10 * 10) xs))"
    by (metis (no_types, lifting) in_set_conv_nth length_take min_less_iff_conj nth_take
        mod_less_divisor zero_less_numeral)
  then have "p \<in> set (take 10 (drop (nat (?n - 1) * 10) xs))"
    unfolding n .
  with lo hi show ?thesis by blast
qed

lemma posts_new_post:
  "posts (snd (new_post int_of req d)) = posts d \<or>
   (\<exists>p. posts (snd (new_post int_of req d)) = posts d @ [p] \<and> post_image p = None)"
  by (auto simp: new_post_def login_required_def new_post_body_def Let_def Post_save_def
      PostForm_def Form_def PostForm_full_clean_def new_Post_def clean_image_def qd_get_def
      split: option.splits)

lemma posts_Comment_save: "posts (Comment_save c d) = posts d"
  by (simp add: Comment_save_def split: option.splits)

lemma posts_add_comment: "posts (snd (add_comment req n k d)) = posts d"
  by (simp add: add_comment_def login_required_def add_comment_body_def Let_def posts_Comment_save
      split: sum.splits option.splits)

lemma posts_profile_follow: "posts (snd (profile_follow req n d)) = posts d"
  by (simp add: profile_follow_def login_required_def profile_follow_body_def Let_def
      Follow_create_def split: sum.splits option.splits)

lemma posts_profile_unfollow: "posts (snd (profile_unfollow req n d)) = posts d"
  by (simp add: profile_unfollow_def login_required_def profile_unfollow_body_def Let_def
      Follow_delete_def split: sum.splits option.splits)


lemmas ex_defs = ex_user_def ex_leo_def ex_post_def ex_own_post_def ex_db_def ex_request_def

lemma ex_get_post: "get_object_or_404 (Post_by_pk_author ex_db 1 ''leo'') = Inr ex_post"
  by (simp add: ex_defs Post_by_pk_author_def)

lemma ex_get_leo: "get_object_or_404 (User_by_username ex_db ''leo'') = Inr ex_leo"
  by (simp add: ex_defs User_by_username_def)

lemma ex_get_user: "get_object_or_404 (User_by_username ex_db ''test_user'') = Inr ex_user"
  by (simp add: ex_defs User_by_username_def)

lemma follow_index_result:
  assumes "req_user req = Some u"
      and "get_object_or_404 (User_by_username d (username u)) = Inr a"
      and "get_page int_of (Paginator (Post_by_following_user d (user_id u)) 10)
             (qd_get (req_GET req) ''page'') = Inr pg"
  shows "follow_index int_of req d =
     (Inr (Render ''follow.html''
             (Follow_ctx a (length (Post_by_following_user d (user_id u))) pg
                (Paginator (Post_by_following_user d (user_id u)) 10)) 200), d)"
  using assms
  by (simp add: follow_index_def login_required_def follow_index_body_def Let_def paginate_def)

lemma get_page_of_number:
  assumes "int_of s = Some n" and "1 \<le> n" and "n \<le> num_pages (Paginator xs 10)"
  shows "get_page int_of (Paginator xs 10) (Some s) =
     Inr \<lparr>page_object_list = take 10 (drop (nat (n - 1) * 10) xs), page_number = n,
          page_paginator = Paginator xs 10\<rparr>"
  using assms by (simp add: get_page_total to_int_def)

text \<open>
  C5. For an authenticated user, the feed that \<open>follow_index\<close> paginates holds exactly the
  posts whose author the user follows, so no post of an author the user does not follow
  is in it. The response to a request shows the page of the feed that the page parameter
  of the request selects: the slice of 10 posts of that number. Every post of the feed
  appears in a response: it is on a page of some number, and the response to every
  request of the user for that number shows it.
\<close>

theorem follow_index_feed:
  assumes "req_user req = Some u"
      and "get_object_or_404 (User_by_username d (username u)) = Inr a"
  shows "\<exists>feed pg.
           follow_index int_of req d =
             (Inr (Render ''follow.html'' (Follow_ctx a (length feed) pg (Paginator feed 10)) 200), d) \<and>
           set feed = {p \<in> set (posts d). \<exists>f \<in> set (follows d).
                          follow_user f = user_id u \<and> post_author p = Some (follow_author f)} \<and>
           get_page int_of (Paginator feed 10) (qd_get (req_GET req) ''page'') = Inr pg \<and>
           page_object_list pg = take 10 (drop (nat (page_number pg - 1) * 10) feed) \<and>
           1 \<le> page_number pg \<and> page_number pg \<le> num_pages (Paginator feed 10) \<and>
           (\<forall>p \<in> set feed. \<exists>n. 1 \<le> n \<and> n \<le> num_pages (Paginator feed 10) \<and>
              (\<forall>req' s. req_user req' = Some u \<and> qd_get (req_GET req') ''page'' = Some s \<and>
                        int_of s = Some n \<longrightarrow>
                 (\<exists>pg'. follow_index int_of req' d =
                          (Inr (Render ''follow.html''
                                  (Follow_ctx a (length feed) pg' (Paginator feed 10)) 200), d) \<and>
                        page_number pg' = n \<and> p \<in> set (page_object_list pg'))))"
proof -
  let ?feed = "Post_by_following_user d (user_id u)"
  let ?P = "Paginator ?feed 10"
  let ?n = "case to_int int_of (qd_get (req_GET req) ''page'') of
              None \<Rightarrow> 1
            | Some n \<Rightarrow> if 1 \<le> n \<and> n \<le> num_pages ?P then n else num_pages ?P"
  let ?pg = "\<lparr>page_object_list = take 10 (drop (nat (?n - 1) * 10) ?feed), page_number = ?n,
              page_paginator = ?P\<rparr>"
  have g: "get_page int_of ?P (qd_get (req_GET req) ''page'') = Inr ?pg"
    by (rule get_page_total)
  have r: "follow_index int_of req d =
      (Inr (Render ''follow.html'' (Follow_ctx a (length ?feed) ?pg ?P) 200), d)"
    by (rule follow_index_result[OF assms g])
  have b: "1 \<le> ?n" "?n \<le> num_pages ?P"
    using num_pages_ge1[of ?feed] by (auto split: option.splits)
  have every: "\<exists>n. 1 \<le> n \<and> n \<le> num_pages ?P \<and>
      (\<forall>req' s. req_user req' = Some u \<and> qd_get (req_GET req') ''page'' = Some s \<and>
                int_of s = Some n \<longrightarrow>
         (\<exists>pg'. follow_index int_of req' d =
                  (Inr (Render ''follow.html'' (Follow_ctx a (length ?feed) pg' ?P) 200), d) \<and>
                page_number pg' = n \<and> p \<in> set (page_object_list pg')))"
    if "p \<in> set ?feed" for p
  proof -
    from every_item_on_a_page[OF that] obtain n where
      n: "1 \<le> n" "n \<le> num_pages ?P" "p \<in> set (take 10 (drop (nat (n - 1) * 10) ?feed))"
      by blast
    let ?pn = "\<lparr>page_object_list = take 10 (drop (nat (n - 1) * 10) ?feed), page_number = n,
                page_paginator = ?P\<rparr>"
    have "follow_index int_of req' d =
            (Inr (Render ''follow.html'' (Follow_ctx a (length ?feed) ?pn ?P) 200), d)"
      if q: "req_user req' = Some u" "qd_get (req_GET req') ''page'' = Some s" "int_of s = Some n"
      for req' s
    proof -
      have "get_page int_of ?P (qd_get (req_GET req') ''page'') = Inr ?pn"
        unfolding q(2)
        using get_page_of_number[where int_of = int_of and s = s and n = n and xs = ?feed]
          q(3) n(1,2)
        by simp
      from follow_index_result[OF q(1) assms(2) this] show ?thesis .
    qed
    with n show ?thesis
      by (intro exI[of _ n]) auto
  qed
  show ?thesis
  proof (intro exI[of _ ?feed] exI[of _ ?pg] conjI)
    show "follow_index int_of req d =
        (Inr (Render ''follow.html'' (Follow_ctx a (length ?feed) ?pg ?P) 200), d)"
      by (rule r)
    show "set ?feed = {p \<in> set (posts d). \<exists>f \<in> set (follows d).
                          follow_user f = user_id u \<and> post_author p = Some (follow_author f)}"
      by (rule set_Post_by_following_user)
    show "get_page int_of ?P (qd_get (req_GET req) ''page'') = Inr ?pg"
      by (rule g)
    show "page_object_list ?pg = take 10 (drop (nat (page_number ?pg - 1) * 10) ?feed)"
      by simp
    show "1 \<le> page_number ?pg" "page_number ?pg \<le> num_pages ?P"
      using b by simp_all
    show "\<forall>p \<in> set ?feed. \<exists>n. 1 \<le> n \<and> n \<le> num_pages ?P \<and>
      (\<forall>req' s. req_user req' = Some u \<and> qd_get (req_GET req') ''page'' = Some s \<and>
                int_of s = Some n \<longrightarrow>
         (\<exists>pg'. follow_index int_of req' d =
                  (Inr (Render ''follow.html'' (Follow_ctx a (length ?feed) pg' ?P) 200), d) \<and>
                page_number pg' = n \<and> p \<in> set (page_object_list pg')))"
      using every by blast
  qed
qed

theorem follow_index_feed_witness:
  "follow_index ascii_int (ex_request\<lparr>req_GET := [(''page'', ''1'')]\<rparr>)
     (ex_db\<lparr>follows := [\<lparr>follow_id = Some 1, follow_user = 1, follow_author = 2\<rparr>]\<rparr>) =
     (Inr (Render ''follow.html''
        (Follow_ctx ex_user 1
           \<lparr>page_object_list = [ex_post], page_number = 1,
            page_paginator = Paginator [ex_post] 10\<rparr> (Paginator [ex_post] 10)) 200),
      ex_db\<lparr>follows := [\<lparr>follow_id = Some 1, follow_user = 1, follow_author = 2\<rparr>]\<rparr>)"
proof -
  let ?d = "ex_db\<lparr>follows := [\<lparr>follow_id = Some 1, follow_user = 1, follow_author = 2\<rparr>]\<rparr>"
  let ?r = "ex_request\<lparr>req_GET := [(''page'', ''1'')]\<rparr>"
  have u: "req_user ?r = Some ex_user"
    by (simp add: ex_request_def)
  have g: "get_object_or_404 (User_by_username ?d (username ex_user)) = Inr ex_user"
    using ex_get_user by (simp add: User_by_username_def ex_user_def)
  have f: "Post_by_following_user ?d (user_id ex_user) = [ex_post]"
    by (simp add: Post_by_following_user_def Post_objects_all_def ex_defs)
  have i: "ascii_int ''1'' = Some 1"
    by (simp add: ascii_int_def py_strip_def is_py_space_def is_digit_def digit_val_def)
  have q: "qd_get (req_GET ?r) ''page'' = Some ''1''"
    by (simp add: qd_get_def)
  have np: "num_pages (Paginator [ex_post] 10) = 1"
    by (simp add: num_pages_def pcount_def Paginator_def)
  from follow_index_feed[OF u g, of ascii_int] obtain feed pg where
    r: "follow_index ascii_int ?r ?d =
         (Inr (Render ''follow.html'' (Follow_ctx ex_user (length feed) pg (Paginator feed 10)) 200), ?d)"
    and s: "set feed = {p \<in> set (posts ?d). \<exists>f \<in> set (follows ?d).
                          follow_user f = user_id ex_user \<and> post_author p = Some (follow_author f)}"
    and p: "get_page ascii_int (Paginator feed 10) (qd_get (req_GET ?r) ''page'') = Inr pg"
    by blast
  from r have "paginate ascii_int ?r (Paginator (Post_by_following_user ?d (user_id ex_user)) 10)
      = Inr pg \<and> feed = Post_by_following_user ?d (user_id ex_user)"
    using u g paginate_total[of ascii_int ?r "Post_by_following_user ?d (user_id ex_user)"]
    by (auto simp: follow_index_def login_required_def follow_index_body_def Let_def Paginator_def)
  then have feed: "feed = [ex_post]"
    using f by simp
  from p have "pg = \<lparr>page_object_list = [ex_post], page_number = 1,
            page_paginator = Paginator [ex_post] 10\<rparr>"
    unfolding feed q get_page_total by (simp add: to_int_def i np)
  with r feed show ?thesis
    by simp
qed

text \<open>With \<open>ascii_int\<close> for \<^verbatim>\<open>int\<close>, which reads the decimal digits of every number, such
  a request exists for every post of the feed: the one whose page parameter is the number
  of the page of the post.\<close>

lemma digit_char:
  assumes "k < 10"
  shows "is_digit (char_of (48 + k))" and "digit_val (char_of (48 + k)) = int k"
    and "\<not> is_py_space (char_of (48 + k))"
    and "char_of (48 + k) \<noteq> CHR ''-''" and "char_of (48 + k) \<noteq> CHR ''+''"
    and "char_of (48 + k) \<noteq> CHR ''_''"
proof -
  have m: "(48 + k) mod 256 = 48 + k"
    using assms by simp
  then have o: "(of_char (char_of (48 + k)) :: nat) = 48 + k"
    by simp
  show "is_digit (char_of (48 + k))"
    using assms by (simp add: is_digit_def m)
  show "digit_val (char_of (48 + k)) = int k"
    by (simp add: digit_val_def m)
  have ne: "char_of (48 + k) \<noteq> c" if "(of_char c :: nat) \<noteq> 48 + k" for c :: char
    using that o by auto
  show "\<not> is_py_space (char_of (48 + k))"
    using assms by (auto simp: is_py_space_def intro!: ne)
  show "char_of (48 + k) \<noteq> CHR ''-''" "char_of (48 + k) \<noteq> CHR ''+''"
    "char_of (48 + k) \<noteq> CHR ''_''"
    using assms by (auto intro!: ne)
qed

lemma digits_only_decimal: "digits_only (decimal n)"
proof (induction n rule: decimal.induct)
  case (1 n)
  show ?case
  proof (cases "n < 10")
    case True
    then show ?thesis
      by (subst decimal.simps) (simp add: digits_only_def digit_char)
  next
    case False
    have "n mod 10 < 10" by simp
    with 1[OF False] False show ?thesis
      by (subst decimal.simps) (simp add: digits_only_def digit_char)
  qed
qed

lemma py_digits_digits_only:
  assumes "digits_only s"
  shows "py_digits acc s = Some (foldl (\<lambda>a c. 10 * a + digit_val c) acc s)"
  using assms
proof (induction s arbitrary: acc)
  case Nil
  then show ?case by (simp add: digits_only_def)
next
  case (Cons c cs)
  show ?case
  proof (cases cs)
    case Nil
    with Cons.prems show ?thesis by (simp add: digits_only_def)
  next
    case (Cons d ds)
    with Cons.prems have "digits_only cs" "d \<noteq> CHR ''_''" "is_digit c"
      by (simp_all add: digits_only_def)
    with Cons.IH[of "10 * acc + digit_val c"] Cons show ?thesis
      by simp
  qed
qed

lemma foldl_decimal: "foldl (\<lambda>a c. 10 * a + digit_val c) 0 (decimal n) = int n"
proof (induction n rule: decimal.induct)
  case (1 n)
  show ?case
  proof (cases "n < 10")
    case True
    then show ?thesis
      by (subst decimal.simps) (simp add: digit_char)
  next
    case False
    have "n mod 10 < 10" by simp
    then have "digit_val (char_of (48 + n mod 10)) = int (n mod 10)"
      by (rule digit_char)
    with 1[OF False] False show ?thesis
      by (subst decimal.simps) (simp add: zmod_int zdiv_int)
  qed
qed

lemma dropWhile_none:
  assumes "\<forall>c \<in> set xs. \<not> P c"
  shows "dropWhile P xs = xs"
  using assms by (cases xs) auto

lemma py_strip_digits_only:
  assumes "digits_only s"
  shows "py_strip s = s"
proof -
  from assms have a: "\<forall>c \<in> set s. \<not> is_py_space c"
    by (simp add: digits_only_def list_all_iff)
  then have b: "\<forall>c \<in> set (rev s). \<not> is_py_space c"
    by simp
  show ?thesis
    unfolding py_strip_def dropWhile_none[OF a] dropWhile_none[OF b] by simp
qed

lemma ascii_int_decimal: "ascii_int (decimal n) = Some (int n)"
proof -
  have d: "digits_only (decimal n)"
    by (rule digits_only_decimal)
  then obtain c cs where s: "decimal n = c # cs" "c \<noteq> CHR ''-''" "c \<noteq> CHR ''+''"
    by (cases "decimal n") (auto simp: digits_only_def)
  have "py_digits 0 (decimal n) = Some (int n)"
    unfolding py_digits_digits_only[OF d] foldl_decimal ..
  then have p: "py_digits 0 (c # cs) = Some (int n)"
    unfolding s(1) .
  have "py_strip (decimal n) = c # cs"
    using py_strip_digits_only[OF d] s(1) by simp
  then show ?thesis
    unfolding ascii_int_def using s(2,3) p by (simp del: py_digits.simps)
qed

lemma follow_index_shows_every_post:
  assumes "req_user req = Some u"
      and "get_object_or_404 (User_by_username d (username u)) = Inr a"
      and "p \<in> set (Post_by_following_user d (user_id u))"
  shows "\<exists>n pg.
     follow_index ascii_int (req\<lparr>req_GET := [(''page'', decimal n)]\<rparr>) d =
       (Inr (Render ''follow.html''
               (Follow_ctx a (length (Post_by_following_user d (user_id u))) pg
                  (Paginator (Post_by_following_user d (user_id u)) 10)) 200), d) \<and>
     p \<in> set (page_object_list pg)"
proof -
  let ?feed = "Post_by_following_user d (user_id u)"
  from every_item_on_a_page[OF assms(3)] obtain n where
    n: "1 \<le> n" "n \<le> num_pages (Paginator ?feed 10)"
       "p \<in> set (take 10 (drop (nat (n - 1) * 10) ?feed))"
    by blast
  let ?pg = "\<lparr>page_object_list = take 10 (drop (nat (n - 1) * 10) ?feed), page_number = n,
                page_paginator = Paginator ?feed 10\<rparr>"
  let ?r = "req\<lparr>req_GET := [(''page'', decimal (nat n))]\<rparr>"
  have i: "ascii_int (decimal (nat n)) = Some n"
    using n(1) by (simp add: ascii_int_decimal)
  have "get_page ascii_int (Paginator ?feed 10) (Some (decimal (nat n))) = Inr ?pg"
    using get_page_of_number[where int_of = ascii_int and s = "decimal (nat n)" and n = n
        and xs = ?feed] i n(1,2)
    by simp
  then have g: "get_page ascii_int (Paginator ?feed 10) (qd_get (req_GET ?r) ''page'') = Inr ?pg"
    by (simp add: qd_get_def)
  have u: "req_user ?r = Some u"
    using assms(1) by simp
  from follow_index_result[OF u assms(2) g] n(3) show ?thesis
    by (intro exI[of _ "nat n"] exI[of _ ?pg]) simp
qed

text \<open>
  C2. An authenticated request to \<open>post_edit\<close> for an existing post, by a user who is not
  the author of the post, is answered with a redirect to \<open>post_view\<close>, and the tables are
  left as they were: no row is created, updated or deleted.
\<close>

theorem post_edit_not_author:
  assumes "req_user req = Some u"
      and "get_object_or_404 (Post_by_pk_author d k name) = Inr p"
      and "post_author p \<noteq> Some (user_id u)"
  shows "post_edit int_of req name k d = (Inr (Redirect (To_post_view name k)), d)"
  using assms
  by (simp add: post_edit_def login_required_def post_edit_body_def user_is_def)

theorem post_edit_not_author_witness:
  "post_edit ascii_int (ex_request\<lparr>req_method := POST, req_POST := [(''text'', ''Changed text'')],
       req_FILES := [(''image'', Image_file ''foo_image.gif'')]\<rparr>) ''leo'' 1 ex_db =
     (Inr (Redirect (To_post_view ''leo'' 1)), ex_db)"
proof -
  have u: "req_user (ex_request\<lparr>req_method := POST, req_POST := [(''text'', ''Changed text'')],
       req_FILES := [(''image'', Image_file ''foo_image.gif'')]\<rparr>) = Some ex_user"
    by (simp add: ex_request_def)
  have a: "post_author ex_post \<noteq> Some (user_id ex_user)"
    by (simp add: ex_defs)
  show ?thesis
    by (rule post_edit_not_author[OF u ex_get_post a])
qed

text \<open>
  C4. An unauthenticated request to any of the six views that require a login is answered
  with a redirect to the login route whose \<open>next\<close> parameter is the requested path, and
  the tables are left as they were.
\<close>

theorem login_required_anonymous:
  assumes "req_user req = None"
  shows "new_post int_of req d = (Inr (Redirect (To_login (req_full_path req))), d) \<and>
         post_edit int_of req name k d = (Inr (Redirect (To_login (req_full_path req))), d) \<and>
         add_comment req name k d = (Inr (Redirect (To_login (req_full_path req))), d) \<and>
         follow_index int_of req d = (Inr (Redirect (To_login (req_full_path req))), d) \<and>
         profile_follow req name d = (Inr (Redirect (To_login (req_full_path req))), d) \<and>
         profile_unfollow req name d = (Inr (Redirect (To_login (req_full_path req))), d)"
  using assms
  by (simp add: new_post_def post_edit_def add_comment_def follow_index_def
      profile_follow_def profile_unfollow_def login_required_def)

theorem login_required_anonymous_witness:
  "new_post ascii_int (ex_request\<lparr>req_method := POST, req_full_path := ''/new/'', req_user := None,
       req_POST := [(''text'', ''Text test!'')]\<rparr>) ex_db =
     (Inr (Redirect (To_login ''/new/'')), ex_db) \<and>
   profile_follow (ex_request\<lparr>req_method := POST, req_full_path := ''/new/'', req_user := None,
       req_POST := [(''text'', ''Text test!'')]\<rparr>) ''leo'' ex_db =
     (Inr (Redirect (To_login ''/new/'')), ex_db)"
  using login_required_anonymous[where int_of = ascii_int and d = ex_db and name = "''leo''"
      and k = 1 and req = "ex_request\<lparr>req_method := POST, req_full_path := ''/new/'',
       req_user := None, req_POST := [(''text'', ''Text test!'')]\<rparr>"]
  by simp

lemma length_filter_key_le1:
  "distinct (map g xs) \<Longrightarrow> length (filter (\<lambda>x. g x = k) xs) \<le> 1"
  by (induction xs) (auto simp: filter_empty_conv image_iff)

lemma follow_inv_at_most_one:
  assumes "follow_inv d"
  shows "length (Follow_filter d u a) \<le> 1"
proof -
  from assms have "distinct (map (\<lambda>f. (follow_user f, follow_author f)) (follows d))"
    by (simp add: follow_inv_def)
  then have "length (filter (\<lambda>f. (follow_user f, follow_author f) = (u, a)) (follows d)) \<le> 1"
    by (rule length_filter_key_le1)
  then show ?thesis
    by (simp add: Follow_filter_def)
qed

lemma follow_inv_no_self:
  assumes "follow_inv d"
  shows "Follow_filter d u u = []"
  using assms by (auto simp: follow_inv_def Follow_filter_def filter_empty_conv list_all_iff)

lemma profile_follow_result:
  assumes "req_user req = Some u" and "get_object_or_404 (User_by_username d n) = Inr a"
  shows "profile_follow req n d =
    (Inr (Redirect (To_profile n)),
     if user_id u \<noteq> user_id a \<and> Follow_filter d (user_id u) (user_id a) = []
     then Follow_create (user_id u) (user_id a) d else d)"
  using assms
  by (simp add: profile_follow_def login_required_def profile_follow_body_def Let_def)

text \<open>
  C3. In every state reachable through the views, the follow table has at most one row
  for each pair of user and author and no row of a user following themselves.
  \<open>profile_follow\<close> creates a row exactly when the current user is not the named user and
  does not follow them yet, so a self-follow leaves the table unchanged, and so does a
  repeated call.
\<close>

theorem follow_table_invariant:
  assumes "reachable int_of s"
  shows "follow_inv (fst s) \<and>
         (\<forall>u a. length (Follow_filter (fst s) u a) \<le> 1) \<and>
         (\<forall>u. Follow_filter (fst s) u u = []) \<and>
         (\<forall>req n u a.
            req_user req = Some u \<and> get_object_or_404 (User_by_username (fst s) n) = Inr a \<longrightarrow>
            profile_follow req n (fst s) =
              (Inr (Redirect (To_profile n)),
               if user_id u \<noteq> user_id a \<and> Follow_filter (fst s) (user_id u) (user_id a) = []
               then Follow_create (user_id u) (user_id a) (fst s) else fst s)) \<and>
         (\<forall>req n. snd (profile_follow req n (snd (profile_follow req n (fst s)))) =
                  snd (profile_follow req n (fst s)))"
proof -
  from assms have inv: "follow_inv (fst s)"
    by (rule reachable_follow_inv)
  show ?thesis
    using inv follow_inv_at_most_one[OF inv] follow_inv_no_self[OF inv]
      profile_follow_result profile_follow_twice
    by blast
qed

theorem follow_table_invariant_witness:
  "follows (fst (snd (handle ascii_int (Profile_follow ''leo'') 0 ex_request (ex_db, \<lambda>k. None)))) =
     [\<lparr>follow_id = Some 1, follow_user = 1, follow_author = 2\<rparr>] \<and>
   follow_inv (fst (snd (handle ascii_int (Profile_follow ''leo'') 0 ex_request (ex_db, \<lambda>k. None)))) \<and>
   snd (profile_follow ex_request ''leo''
          (fst (snd (handle ascii_int (Profile_follow ''leo'') 0 ex_request (ex_db, \<lambda>k. None))))) =
     fst (snd (handle ascii_int (Profile_follow ''leo'') 0 ex_request (ex_db, \<lambda>k. None))) \<and>
   snd (profile_follow ex_request ''test_user''
          (fst (snd (handle ascii_int (Profile_follow ''leo'') 0 ex_request (ex_db, \<lambda>k. None))))) =
     fst (snd (handle ascii_int (Profile_follow ''leo'') 0 ex_request (ex_db, \<lambda>k. None)))"
proof -
  let ?s = "snd (handle ascii_int (Profile_follow ''leo'') 0 ex_request (ex_db, \<lambda>k. None))"
  have "reachable ascii_int (ex_db, \<lambda>k. None)"
    by (rule reachable.initial) (simp add: ex_db_def)
  then have r: "reachable ascii_int ?s"
    by (rule reachable.step)
  have u: "req_user ex_request = Some ex_user"
    by (simp add: ex_request_def)
  have d: "fst ?s = Follow_create 1 2 ex_db"
    using profile_follow_result[OF u ex_get_leo]
    by (simp add: ex_user_def ex_leo_def Follow_filter_def ex_db_def)
  have f: "follows (fst ?s) = [\<lparr>follow_id = Some 1, follow_user = 1, follow_author = 2\<rparr>]"
    unfolding d by (simp add: Follow_create_def ex_db_def fresh_pk_def)
  have g1: "get_object_or_404 (User_by_username (fst ?s) ''leo'') = Inr ex_leo"
    unfolding d using ex_get_leo by (simp add: User_by_username_def Follow_create_def)
  have g2: "get_object_or_404 (User_by_username (fst ?s) ''test_user'') = Inr ex_user"
    unfolding d using ex_get_user by (simp add: User_by_username_def Follow_create_def)
  have ff: "Follow_filter (fst ?s) 1 2 \<noteq> []"
    by (simp only: Follow_filter_def f) simp
  from follow_table_invariant[OF r] have
    inv: "follow_inv (fst ?s)" and
    res: "\<And>req n u a. req_user req = Some u \<Longrightarrow>
            get_object_or_404 (User_by_username (fst ?s) n) = Inr a \<Longrightarrow>
            profile_follow req n (fst ?s) =
              (Inr (Redirect (To_profile n)),
               if user_id u \<noteq> user_id a \<and> Follow_filter (fst ?s) (user_id u) (user_id a) = []
               then Follow_create (user_id u) (user_id a) (fst ?s) else fst ?s)"
    by blast+
  have "snd (profile_follow ex_request ''leo'' (fst ?s)) = fst ?s"
    using res[OF u g1] ff by (simp add: ex_user_def ex_leo_def)
  moreover have "snd (profile_follow ex_request ''test_user'' (fst ?s)) = fst ?s"
    using res[OF u g2] by simp
  ultimately show ?thesis
    using f inv by blast
qed


section \<open>Comments\<close>

lemma get_object_or_404_mem: "get_object_or_404 xs = Inr x \<Longrightarrow> x \<in> set xs"
  by (cases xs rule: get_object_or_404.cases) auto

lemma clean_text_nonempty: "clean_text data = Some t \<Longrightarrow> data \<noteq> []"
  by (auto simp: clean_text_def qd_get_def)

lemma add_comment_result:
  assumes "req_user req = Some u"
      and "get_object_or_404 (Post_by_pk_author d k name) = Inr p"
      and "clean_text (req_POST req) = Some t"
  shows "add_comment req name k d =
           (Inr (Redirect (To_post_view name k)),
            d\<lparr>comments := comments d @
                 [\<lparr>comment_id = Some (fresh_pk (map comment_id (comments d))),
                   comment_post = Some k, comment_author = Some (user_id u),
                   comment_text = t\<rparr>]\<rparr>)"
proof -
  from assms(2) have "p \<in> set (Post_by_pk_author d k name)"
    by (rule get_object_or_404_mem)
  then have k: "post_id p = Some k"
    by (auto simp: Post_by_pk_author_def)
  from assms(3) have ne: "req_POST req \<noteq> []"
    by (rule clean_text_nonempty)
  show ?thesis
    using assms k ne
    by (simp add: add_comment_def login_required_def add_comment_body_def CommentForm_def
        Form_def CommentForm_full_clean_def is_valid_def or_None_def Let_def new_Comment_def
        Comment_save_def)
qed

text \<open>
  C9. A valid \<open>add_comment\<close> request of an authenticated user creates exactly one comment:
  its author is the current user and its post is the post of the URL, whatever else the
  form data holds. A second request of the same user with the same text, differing in any
  other submitted field (an author or a post field, say), stores the same authorship and
  the same post.
\<close>

theorem add_comment_authorship:
  assumes "req_user req = Some u"
      and "get_object_or_404 (Post_by_pk_author d k name) = Inr p"
      and "clean_text (req_POST req) = Some t"
      and "req_user req' = Some u"
      and "clean_text (req_POST req') = Some t"
  shows "add_comment req name k d =
           (Inr (Redirect (To_post_view name k)),
            d\<lparr>comments := comments d @
                 [\<lparr>comment_id = Some (fresh_pk (map comment_id (comments d))),
                   comment_post = Some k, comment_author = Some (user_id u),
                   comment_text = t\<rparr>]\<rparr>) \<and>
         post_id p = Some k \<and>
         add_comment req' name k d = add_comment req name k d"
proof -
  from assms(2) have "p \<in> set (Post_by_pk_author d k name)"
    by (rule get_object_or_404_mem)
  then have "post_id p = Some k"
    by (auto simp: Post_by_pk_author_def)
  then show ?thesis
    using add_comment_result[OF assms(1,2,3)] add_comment_result[OF assms(4,2,5)]
    by simp
qed

theorem add_comment_authorship_witness:
  "add_comment (ex_request\<lparr>req_method := POST,
       req_POST := [(''text'', ''Test comment''), (''author'', ''2''), (''post'', ''7'')]\<rparr>)
     ''leo'' 1 ex_db =
     (Inr (Redirect (To_post_view ''leo'' 1)),
      ex_db\<lparr>comments := [\<lparr>comment_id = Some 1, comment_post = Some 1, comment_author = Some 1,
                            comment_text = ''Test comment''\<rparr>]\<rparr>) \<and>
   add_comment (ex_request\<lparr>req_method := POST, req_POST := [(''text'', ''Test comment'')]\<rparr>)
     ''leo'' 1 ex_db =
   add_comment (ex_request\<lparr>req_method := POST,
       req_POST := [(''text'', ''Test comment''), (''author'', ''2''), (''post'', ''7'')]\<rparr>)
     ''leo'' 1 ex_db"
proof -
  let ?r = "ex_request\<lparr>req_method := POST,
       req_POST := [(''text'', ''Test comment''), (''author'', ''2''), (''post'', ''7'')]\<rparr>"
  let ?r' = "ex_request\<lparr>req_method := POST, req_POST := [(''text'', ''Test comment'')]\<rparr>"
  have u: "req_user ?r = Some ex_user" "req_user ?r' = Some ex_user"
    by (simp_all add: ex_request_def)
  have t: "clean_text (req_POST ?r) = Some ''Test comment''"
    "clean_text (req_POST ?r') = Some ''Test comment''"
    by (simp_all add: clean_text_def qd_get_def)
  have c: "comments ex_db = []" "user_id ex_user = 1"
    by (simp_all add: ex_db_def ex_user_def)
  show ?thesis
    using add_comment_authorship[OF u(1) ex_get_post t(1) u(2) t(2)]
    by (simp add: c fresh_pk_def)
qed

section \<open>Images of posts\<close>

lemma posts_handle:
  assumes "\<forall>n k. call \<noteq> Post_edit n k"
  shows "posts (fst (snd (handle int_of call now req (d, c)))) = posts d \<or>
         (\<exists>p. posts (fst (snd (handle int_of call now req (d, c)))) = posts d @ [p] \<and> post_image p = None)"
  unfolding db_handle using assms posts_new_post[of int_of req d]
  by (cases call)
     (simp_all add: db_index db_group_posts db_profile db_post_view db_follow_index
        posts_add_comment posts_profile_follow posts_profile_unfollow)

text \<open>
  C10. A post created through \<open>new_post\<close> has an empty image field, whatever files the
  request carries: the form of \<open>new_post\<close> is built from the POST data alone. After a call
  of any view but \<open>post_edit\<close>, every post with an image was in the table, with that image,
  before the call.
\<close>

theorem new_post_image_empty:
  "(posts (snd (new_post int_of req d)) = posts d \<or>
    (\<exists>p. posts (snd (new_post int_of req d)) = posts d @ [p] \<and> post_image p = None)) \<and>
   ((\<forall>n k. call \<noteq> Post_edit n k) \<longrightarrow>
    (\<forall>p \<in> set (posts (fst (snd (handle int_of call now req (d, c))))).
        p \<in> set (posts d) \<or> post_image p = None))"
proof -
  have "\<forall>p \<in> set (posts (fst (snd (handle int_of call now req (d, c))))).
          p \<in> set (posts d) \<or> post_image p = None"
    if "\<forall>n k. call \<noteq> Post_edit n k"
    using posts_handle[OF that, of int_of now req d c] by auto
  with posts_new_post[of int_of req d] show ?thesis by blast
qed

theorem new_post_image_empty_witness:
  "posts (fst (snd (handle ascii_int New_post 0
      (ex_request\<lparr>req_method := POST, req_full_path := ''/new/'',
         req_POST := [(''text'', ''Some text'')],
         req_FILES := [(''image'', Image_file ''foo_image.gif'')]\<rparr>) (ex_db, \<lambda>k. None)))) =
     [ex_post, ex_own_post,
      \<lparr>post_id = Some 3, post_text = ''Some text'', post_author = Some 1,
        post_group = None, post_image = None\<rparr>]"
  using new_post_image_empty[where int_of = ascii_int and d = ex_db and call = New_post
      and now = 0 and c = "\<lambda>k. None" and
      req = "ex_request\<lparr>req_method := POST, req_full_path := ''/new/'',
         req_POST := [(''text'', ''Some text'')],
         req_FILES := [(''image'', Image_file ''foo_image.gif'')]\<rparr>"]
  by (simp add: new_post_def login_required_def new_post_body_def PostForm_def Form_def
      PostForm_full_clean_def or_None_def is_valid_def clean_text_def clean_group_def
      clean_image_def qd_get_def new_Post_def Post_save_def fresh_pk_def
      ex_defs Let_def)

text \<open>
  C1, at an input where the code differs from it. An authenticated POST to \<open>new_post\<close>
  with a text and, as its image, a file that is not an image: the upload is not rejected.
  The form never sees the file, the request is valid, a post with an empty image is
  created, and the answer is the redirect to the index.
\<close>

theorem new_post_non_image:
  "new_post int_of (ex_request\<lparr>req_method := POST, req_full_path := ''/new/'',
       req_POST := [(''text'', ''Some text'')],
       req_FILES := [(''image'', Non_image_file ''urls.py'')]\<rparr>) ex_db =
     (Inr (Redirect To_index),
      ex_db\<lparr>posts := [ex_post, ex_own_post,
         \<lparr>post_id = Some 3, post_text = ''Some text'', post_author = Some 1,
          post_group = None, post_image = None\<rparr>]\<rparr>)"
  by (simp add: new_post_def login_required_def new_post_body_def PostForm_def Form_def
      PostForm_full_clean_def or_None_def is_valid_def clean_text_def clean_group_def
      clean_image_def qd_get_def new_Post_def Post_save_def fresh_pk_def
      ex_defs Let_def)

text \<open>\<open>post_edit\<close> gives the files to the form, so there the same upload is rejected and
  the tables stay as they were; an image file is stored.\<close>

lemma post_edit_rejects_non_image:
  assumes "qd_get (req_FILES req) ''image'' = Some (Non_image_file n)"
  shows "snd (post_edit int_of req name k d) = d"
proof -
  from assms have "req_FILES req \<noteq> []"
    by (auto simp: qd_get_def)
  with assms show ?thesis
    by (simp add: post_edit_def login_required_def post_edit_body_def PostForm_def Form_def
        PostForm_full_clean_def or_None_def is_valid_def clean_image_def Let_def
        split: option.splits sum.splits)
qed

lemma post_edit_attaches_image:
  "post_edit ascii_int (ex_request\<lparr>req_method := POST,
       req_POST := [(''text'', ''Post with image'')],
       req_FILES := [(''image'', Image_file ''foo_image.gif'')]\<rparr>) ''test_user'' 2 ex_db =
     (Inr (Redirect (To_post_view ''test_user'' 2)),
      ex_db\<lparr>posts := [ex_post,
         \<lparr>post_id = Some 2, post_text = ''Post with image'', post_author = Some 1,
          post_group = None, post_image = Some ''foo_image.gif''\<rparr>]\<rparr>)"
  by (simp add: post_edit_def login_required_def post_edit_body_def PostForm_def Form_def
      PostForm_full_clean_def or_None_def is_valid_def clean_text_def clean_group_def
      clean_image_def qd_get_def Post_save_def Post_by_pk_author_def user_is_def
      ex_defs Let_def)

section \<open>The comment form of the post page\<close>

text \<open>
  C8, at an input where the code differs from it. A GET request to \<open>post_view\<close> for an
  existing post: the view-model holds the author, the post, the count of the author's posts
  and the comments of the post, but its comment form is bound, to the empty POST
  dictionary of the request, and validating it reports the missing text. The form that
  \<open>add_comment\<close> builds from the same dictionary, with \<^verbatim>\<open>request.POST or None\<close>, is
  unbound.
\<close>

theorem post_view_form:
  "post_view (ex_request\<lparr>req_full_path := ''/leo/1/'', req_user := None\<rparr>) ''leo'' 1 ex_db =
     (Inr (Render ''post_view.html''
        (Post_view_ctx ex_leo ''leo'' ex_post 1
           \<lparr>form_bound = True, form_data = [], form_files = [], form_instance = new_Comment,
            form_errors = []\<rparr> []) 200), ex_db) \<and>
   form_errors (CommentForm_full_clean
     \<lparr>form_bound = True, form_data = [], form_files = [], form_instance = new_Comment,
            form_errors = []\<rparr>) = [''text''] \<and>
   form_bound (CommentForm (or_None (req_POST (ex_request\<lparr>req_full_path := ''/leo/1/'', req_user := None\<rparr>)))) = False"
  by (simp add: post_view_def User_by_username_def Post_by_pk_author_def author_posts_all_def
      Post_objects_all_def post_comments_all_def CommentForm_def Form_def
      CommentForm_full_clean_def clean_text_def qd_get_def or_None_def ex_defs Let_def)


section \<open>The cache of the index page\<close>

lemma index_miss:
  assumes "req_method req = GET"
      and "fetch_from_cache c t ''index_page'' req = None"
  shows "\<exists>r. index_body int_of req d = (Inr r, d) \<and>
             index int_of t req d c =
               ((Inr r, d), c((''index_page'', GET, req_full_path req) \<mapsto> (t + 20, r)))"
proof -
  from index_body_render[of int_of req d] obtain pg where
    "index_body int_of req d =
       (Inr (Render ''index.html'' (Index_ctx pg (Paginator (Post_objects_all d) 10)) 200), d)"
    by blast
  with assms show ?thesis
    by (simp add: index_def cache_page_def update_cache_def cache_set_def)
qed

lemma index_hit:
  assumes "req_method req = GET"
      and "c (''index_page'', GET, req_full_path req) = Some (e, r)"
      and "t < e"
  shows "index int_of t req d c = ((Inr r, d), c)"
  using assms
  by (simp add: index_def cache_page_def fetch_from_cache_def cache_get_def)

lemma index_expired:
  assumes "req_method req = GET"
      and "c (''index_page'', GET, req_full_path req) = Some (e, r)"
      and "e \<le> t"
  shows "fetch_from_cache c t ''index_page'' req = None"
  using assms
  by (simp add: fetch_from_cache_def cache_get_def)

text \<open>No view evicts or replaces a live entry of the cache: the index view writes the
  cache only after a miss, and a miss at the key of a live entry cannot happen; the other
  views do not touch the cache.\<close>

lemma cache_page_keeps_entry:
  assumes "c (prefix, GET, path) = Some (e, r)" and "now < e"
  shows "snd (cache_page timeout prefix view now req d c) (prefix, GET, path) = Some (e, r)"
proof (cases "fetch_from_cache c now prefix req")
  case (Some x)
  with assms show ?thesis
    by (simp add: cache_page_def)
next
  case None
  have "(prefix, req_method req, req_full_path req) \<noteq> (prefix, GET, path)"
  proof
    assume "(prefix, req_method req, req_full_path req) = (prefix, GET, path)"
    then have "fetch_from_cache c now prefix req = Some r"
      using assms by (simp add: fetch_from_cache_def cache_get_def)
    with None show False by simp
  qed
  then have "update_cache c now timeout prefix req res (prefix, GET, path) = c (prefix, GET, path)"
    for res
    by (auto simp: update_cache_def cache_set_def split: sum.splits response.splits)
  with assms None show ?thesis
    by (simp add: cache_page_def Let_def)
qed

lemma cache_handle:
  "snd (snd (handle int_of call now req (d, c))) =
     (case call of Index \<Rightarrow> snd (index int_of now req d c) | _ \<Rightarrow> c)"
  by (cases call) (simp_all split: prod.splits)

lemma handle_keeps_entry:
  assumes "snd s (''index_page'', GET, path) = Some (e, r)" and "now < e"
  shows "snd (snd (handle int_of call now req s)) (''index_page'', GET, path) = Some (e, r)"
proof (cases s)
  case (Pair d c)
  with assms have c: "c (''index_page'', GET, path) = Some (e, r)"
    by simp
  have "snd (snd (handle int_of call now req (d, c))) (''index_page'', GET, path) = Some (e, r)"
    unfolding cache_handle
    using c assms(2)
      cache_page_keeps_entry[where c = c and prefix = "''index_page''" and path = path
        and e = e and r = r and now = now and timeout = 20 and view = "index_body int_of"
        and req = req and d = d]
    by (cases call) (simp_all add: index_def)
  with Pair show ?thesis by simp
qed

lemma run_keeps_entry:
  assumes "snd s (''index_page'', GET, path) = Some (e, r)"
      and "\<forall>ev \<in> set events. fst (snd ev) < e"
  shows "snd (run int_of events s) (''index_page'', GET, path) = Some (e, r)"
  using assms
proof (induction events arbitrary: s)
  case Nil
  then show ?case by simp
next
  case (Cons ev events)
  obtain call now req where ev: "ev = (call, now, req)"
    by (cases ev) auto
  from Cons.prems(2) ev have "now < e"
    by simp
  from handle_keeps_entry[OF Cons.prems(1) this]
  have "snd (snd (handle int_of call now req s)) (''index_page'', GET, path) = Some (e, r)" .
  moreover from Cons.prems(2) have "\<forall>ev \<in> set events. fst (snd ev) < e"
    by simp
  ultimately have "snd (run int_of events (snd (handle int_of call now req s)))
      (''index_page'', GET, path) = Some (e, r)"
    by (rule Cons.IH)
  then show ?case
    by (simp add: ev)
qed

text \<open>
  C7 (as amended). A GET request to \<open>index\<close> at time \<open>t1\<close> that finds no live entry
  runs the view and stores its response. Whatever calls of the views the site handles
  after it, up to a time \<open>t2\<close> with \<open>t1 \<le> t2 < t1 + 20\<close> (calls that create posts
  among them), an identical GET request at \<open>t2\<close> is answered with that stored response,
  the rendering of the tables as they were at \<open>t1\<close>, and leaves the tables and the cache
  as they are: the entry is not evicted, and the answer does not depend on what the
  tables hold at \<open>t2\<close>.
\<close>

theorem index_cache_hit:
  assumes "req_method req = GET"
      and "fetch_from_cache c t1 ''index_page'' req = None"
      and "handle int_of Index t1 req (d1, c) = (r1, s1)"
      and "t1 \<le> t2" and "t2 < t1 + 20"
      and "\<forall>ev \<in> set events. fst (snd ev) \<le> t2"
  shows "handle int_of Index t2 req (run int_of events s1) = (r1, run int_of events s1) \<and>
         r1 = fst (index_body int_of req d1)"
proof -
  let ?k = "(''index_page'', GET, req_full_path req)"
  from index_miss[OF assms(1,2), of int_of d1] obtain r where
    r: "index_body int_of req d1 = (Inr r, d1)"
       "index int_of t1 req d1 c = ((Inr r, d1), c(?k \<mapsto> (t1 + 20, r)))"
    by blast
  with assms(3) have r1: "r1 = Inr r" and s1: "s1 = (d1, c(?k \<mapsto> (t1 + 20, r)))"
    by auto
  from s1 have "snd s1 ?k = Some (t1 + 20, r)"
    by simp
  moreover from assms(5,6) have "\<forall>ev \<in> set events. fst (snd ev) < t1 + 20"
    by auto
  ultimately have k: "snd (run int_of events s1) ?k = Some (t1 + 20, r)"
    by (rule run_keeps_entry)
  obtain d2 c2 where s2: "run int_of events s1 = (d2, c2)"
    by (cases "run int_of events s1") auto
  with k have "c2 ?k = Some (t1 + 20, r)"
    by simp
  with assms(1,5) have "index int_of t2 req d2 c2 = ((Inr r, d2), c2)"
    using index_hit[of req c2 "t1 + 20" r t2 int_of d2] by simp
  then have "handle int_of Index t2 req (d2, c2) = (Inr r, d2, c2)"
    by simp
  with r(1) r1 s2 show ?thesis
    by simp
qed

lemma ex_new_post:
  "snd (new_post ascii_int (ex_request\<lparr>req_method := POST, req_full_path := ''/new/'',
       req_POST := [(''text'', ''Some text'')]\<rparr>) ex_db) =
      ex_db\<lparr>posts := [ex_post, ex_own_post,
         \<lparr>post_id = Some 3, post_text = ''Some text'', post_author = Some 1,
          post_group = None, post_image = None\<rparr>]\<rparr>"
  by (simp add: new_post_def login_required_def new_post_body_def PostForm_def Form_def
      PostForm_full_clean_def or_None_def is_valid_def clean_text_def clean_group_def
      clean_image_def qd_get_def new_Post_def Post_save_def fresh_pk_def
      ex_defs Let_def)

theorem index_cache_hit_witness:
  "handle ascii_int Index 19 ex_request
     (run ascii_int
        [(New_post, 5, ex_request\<lparr>req_method := POST, req_full_path := ''/new/'',
                         req_POST := [(''text'', ''Some text'')]\<rparr>)]
        (snd (handle ascii_int Index 0 ex_request (ex_db, \<lambda>k. None)))) =
     (fst (index_body ascii_int ex_request ex_db),
      run ascii_int
        [(New_post, 5, ex_request\<lparr>req_method := POST, req_full_path := ''/new/'',
                         req_POST := [(''text'', ''Some text'')]\<rparr>)]
        (snd (handle ascii_int Index 0 ex_request (ex_db, \<lambda>k. None)))) \<and>
   posts (fst (run ascii_int
        [(New_post, 5, ex_request\<lparr>req_method := POST, req_full_path := ''/new/'',
                         req_POST := [(''text'', ''Some text'')]\<rparr>)]
        (snd (handle ascii_int Index 0 ex_request (ex_db, \<lambda>k. None))))) =
     [ex_post, ex_own_post,
      \<lparr>post_id = Some 3, post_text = ''Some text'', post_author = Some 1,
        post_group = None, post_image = None\<rparr>]"
proof -
  let ?p = "ex_request\<lparr>req_method := POST, req_full_path := ''/new/'',
                         req_POST := [(''text'', ''Some text'')]\<rparr>"
  let ?s1 = "snd (handle ascii_int Index 0 ex_request (ex_db, \<lambda>k. None))"
  have m: "req_method ex_request = GET"
    by (simp add: ex_request_def)
  have e: "fetch_from_cache (\<lambda>k. None) 0 ''index_page'' ex_request = None"
    by (simp add: fetch_from_cache_def cache_get_def)
  have h: "handle ascii_int Index 0 ex_request (ex_db, \<lambda>k. None) =
      (fst (handle ascii_int Index 0 ex_request (ex_db, \<lambda>k. None)), ?s1)"
    by simp
  have t: "(0::real) \<le> 19" "(19::real) < 0 + 20"
    by simp_all
  have ev: "\<forall>ev \<in> set [(New_post, 5::real, ?p)]. fst (snd ev) \<le> 19"
    by simp
  from index_cache_hit[OF m e h t ev]
  have hit: "handle ascii_int Index 19 ex_request (run ascii_int [(New_post, 5, ?p)] ?s1) =
      (fst (handle ascii_int Index 0 ex_request (ex_db, \<lambda>k. None)),
       run ascii_int [(New_post, 5, ?p)] ?s1)"
    and r1: "fst (handle ascii_int Index 0 ex_request (ex_db, \<lambda>k. None)) =
      fst (index_body ascii_int ex_request ex_db)"
    by simp_all
  have "fst ?s1 = ex_db"
    using db_handle[of ascii_int Index 0 ex_request ex_db "\<lambda>k. None"]
    by (simp add: db_index)
  then obtain c1 where s1: "?s1 = (ex_db, c1)"
    by (cases ?s1) auto
  have "fst (run ascii_int [(New_post, 5, ?p)] ?s1) = snd (new_post ascii_int ?p ex_db)"
    unfolding s1 by (simp split: prod.splits)
  then have "posts (fst (run ascii_int [(New_post, 5, ?p)] ?s1)) =
     [ex_post, ex_own_post,
      \<lparr>post_id = Some 3, post_text = ''Some text'', post_author = Some 1,
        post_group = None, post_image = None\<rparr>]"
    by (simp add: ex_new_post)
  with hit r1 show ?thesis
    by simp
qed

text \<open>
  C7 as stated fails for two requests within 20 seconds of each other when the entry was
  stored before the first one. The entry stored at time 0 answers the request at time 19;
  the request at time 21, two seconds later, finds it expired, runs the view on the
  tables, which hold a new post by then, and gets a different response.
\<close>

theorem index_cache_counterexample:
  "fst (index ascii_int 19 ex_request ex_db
          (snd (index ascii_int 0 ex_request ex_db (\<lambda>k. None)))) =
     index_body ascii_int ex_request ex_db \<and>
   fst (index ascii_int 21 ex_request
          (snd (new_post ascii_int (ex_request\<lparr>req_method := POST, req_full_path := ''/new/'',
                  req_POST := [(''text'', ''Some text'')]\<rparr>) ex_db))
          (snd (index ascii_int 19 ex_request ex_db
                  (snd (index ascii_int 0 ex_request ex_db (\<lambda>k. None)))))) =
     index_body ascii_int ex_request
       (snd (new_post ascii_int (ex_request\<lparr>req_method := POST, req_full_path := ''/new/'',
                  req_POST := [(''text'', ''Some text'')]\<rparr>) ex_db)) \<and>
   fst (index_body ascii_int ex_request
       (snd (new_post ascii_int (ex_request\<lparr>req_method := POST, req_full_path := ''/new/'',
                  req_POST := [(''text'', ''Some text'')]\<rparr>) ex_db))) \<noteq>
     fst (index_body ascii_int ex_request ex_db)"
proof -
  let ?d2 = "snd (new_post ascii_int (ex_request\<lparr>req_method := POST, req_full_path := ''/new/'',
                  req_POST := [(''text'', ''Some text'')]\<rparr>) ex_db)"
  let ?k = "(''index_page'', GET, req_full_path ex_request)"
  have m: "req_method ex_request = GET"
    by (simp add: ex_request_def)
  have e: "fetch_from_cache (\<lambda>k. None) 0 ''index_page'' ex_request = None"
    by (simp add: fetch_from_cache_def cache_get_def)
  from index_miss[OF m e, of ascii_int ex_db] obtain r where
    r: "index_body ascii_int ex_request ex_db = (Inr r, ex_db)"
       "index ascii_int 0 ex_request ex_db (\<lambda>k. None) =
          ((Inr r, ex_db), [?k \<mapsto> (20::real, r)])"
    by auto
  let ?c0 = "[?k \<mapsto> (20::real, r)]"
  have k: "?c0 ?k = Some (20, r)"
    by simp
  have h: "index ascii_int 19 ex_request ex_db ?c0 = ((Inr r, ex_db), ?c0)"
    using index_hit[of ex_request ?c0 20 r 19 ascii_int ex_db] m by simp
  have x: "fetch_from_cache ?c0 21 ''index_page'' ex_request = None"
    using index_expired[of ex_request ?c0 20 r 21] m by simp
  from index_miss[OF m x, of ascii_int ?d2] obtain r' where
    r': "index_body ascii_int ex_request ?d2 = (Inr r', ?d2)"
        "fst (index ascii_int 21 ex_request ?d2 ?c0) = (Inr r', ?d2)"
    by auto
  from index_body_render[of ascii_int ex_request ex_db] r(1) obtain pg where
    p: "r = Render ''index.html'' (Index_ctx pg (Paginator (Post_objects_all ex_db) 10)) 200"
    by auto
  from index_body_render[of ascii_int ex_request ?d2] r'(1) obtain pg' where
    p': "r' = Render ''index.html'' (Index_ctx pg' (Paginator (Post_objects_all ?d2) 10)) 200"
    by auto
  have "Post_objects_all ?d2 \<noteq> Post_objects_all ex_db"
    unfolding ex_new_post by (simp add: Post_objects_all_def ex_db_def)
  then have "r' \<noteq> r"
    unfolding p p' by (simp add: Paginator_def)
  with r r' h show ?thesis
    by simp
qed

end
